theory Spec2Isabelle
  imports Main "HOL-Library.Word" "HOL-Library.Multiset" "HOL-Library.Signed_Division"
begin

unbundle bit_operations_syntax

section \<open>The stream cipher of level13_MetamorphicDropper.c\<close>

type_synonym byte = "8 word"

text \<open>
  \<^verbatim>\<open>typedef struct { unsigned char S[256]; int i, j; } _rc4;\<close>
  The table is a list of bytes. The two cursors are C ints; the code reads them only
  under \<^verbatim>\<open>& 0xFF\<close>, after adding at most 255 to a value that \<^verbatim>\<open>_rc4i\<close> or an
  earlier round left between 0 and 255, so they are integers here without a bound.
\<close>

record rc4 =
  S :: "byte list"
  i :: int
  j :: int

text \<open>
  One round of the second loop of \<^verbatim>\<open>_rc4i\<close>, at index \<open>n\<close>:
  \<^verbatim>\<open>j = (j + c->S[i] + k[i % kl]) & 0xFF; t = c->S[i]; c->S[i] = c->S[j]; c->S[j] = t;\<close>
  The key is the list \<open>k\<close>, and \<open>kl\<close> is its length.
\<close>

definition rc4i_round :: "byte list \<Rightarrow> nat \<Rightarrow> byte list \<times> nat \<Rightarrow> byte list \<times> nat" where
  "rc4i_round k n = (\<lambda>(T, jj).
     let jj' = (jj + unat (T ! n) + unat (k ! (n mod length k))) AND 0xFF;
         t = T ! n;
         T1 = T[n := T ! jj'];
         T2 = T1[jj' := t]
     in (T2, jj'))"

text \<open>
  \<^verbatim>\<open>_rc4i(c, k, kl)\<close>. The state \<open>c\<close> is written only: the first loop stores
  \<open>S[i] = i\<close> for every index before anything is read, so the array the loops start from
  (here 256 zero bytes) does not show in the result. With \<open>kl = 0\<close> the first round
  divides by zero in \<^verbatim>\<open>i % kl\<close>: that is the result \<open>None\<close>.
\<close>

definition rc4i :: "byte list \<Rightarrow> rc4 option" where
  "rc4i k =
     (if length k = 0 then None
      else
        let T0 = fold (\<lambda>n T. T[n := word_of_nat n]) [0..<256] (replicate 256 0);
            (T, jj) = fold (rc4i_round k) [0..<256] (T0, 0)
        in Some \<lparr>S = T, i = 0, j = 0\<rparr>)"

text \<open>
  One round of \<^verbatim>\<open>_rc4x\<close>: the state after the swap and the keystream byte
  \<^verbatim>\<open>c->S[(c->S[c->i] + c->S[c->j]) & 0xFF]\<close> that is XOR-ed into \<^verbatim>\<open>d[k]\<close>.
\<close>

definition rc4x_round :: "rc4 \<Rightarrow> rc4 \<times> byte" where
  "rc4x_round c =
     (let i1 = (i c + 1) AND 0xFF;
          j1 = (j c + uint (S c ! nat i1)) AND 0xFF;
          t = S c ! nat i1;
          T1 = (S c)[nat i1 := S c ! nat j1];
          T2 = T1[nat j1 := t]
      in (\<lparr>S = T2, i = i1, j = j1\<rparr>,
          T2 ! nat ((uint (T2 ! nat i1) + uint (T2 ! nat j1)) AND 0xFF)))"

text \<open>
  \<^verbatim>\<open>_rc4x(c, d, l)\<close>: the buffer \<open>d[0..l)\<close> is the list, \<open>l\<close> its length; the loop
  runs over it from the front. The result is the state left in \<open>c\<close> and the buffer.
\<close>

fun rc4x :: "rc4 \<Rightarrow> byte list \<Rightarrow> rc4 \<times> byte list" where
  "rc4x c [] = (c, [])"
| "rc4x c (b # d) =
     (let (c1, ks) = rc4x_round c;
          (c2, d') = rc4x c1 d
      in (c2, (b XOR ks) # d'))"


section \<open>The masked key and the encrypted string table\<close>

definition ks :: "byte list" where
  "ks = [0xc2, 0xcd, 0x95, 0xd6, 0xd1, 0xfa, 0xce, 0x96,
         0xdc, 0xfa, 0x97, 0x95, 0x97, 0x91]"

abbreviation KS_LEN :: nat where "KS_LEN \<equiv> 14"
abbreviation KS_MASK :: byte where "KS_MASK \<equiv> 0xa5"

definition st :: "byte list" where
  "st = [0x92, 0x97, 0xc7, 0xbb, 0xe5, 0xf1, 0x8a, 0xc4,
         0xbe, 0xb2, 0x69, 0x0b, 0x9d, 0x9d, 0x25, 0x1e,
         0x6c, 0x42, 0x8b, 0xb9, 0xa0, 0x11, 0x62, 0xf1,
         0x8e, 0xdb, 0xa1, 0xfe, 0x21, 0x10, 0x97, 0x82,
         0x37, 0x6e, 0x72, 0x4f, 0x83, 0xbd, 0x8b, 0xdb,
         0xa2, 0xb6, 0x8a, 0xdd, 0xbe, 0xa7, 0x21, 0x4c,
         0x97, 0x96, 0x30, 0x2c, 0x6f, 0x46, 0x8b, 0xfb,
         0xaf, 0x50, 0x6c, 0xc4, 0x06, 0xc6, 0xce, 0xc8,
         0xf3, 0x5d, 0xb5, 0xa1, 0x82, 0x6f, 0xf3, 0x91,
         0xf1, 0x8a, 0xc4, 0xbe, 0xb2, 0x6b, 0x0d, 0x91,
         0x9c, 0x28, 0x31, 0x6b, 0x04, 0x9d, 0xbd, 0xbd,
         0x96, 0xc4, 0xa1, 0xf9, 0x2e, 0x48, 0x8a, 0xce,
         0x7e, 0x35, 0x72, 0x5a, 0xc1, 0xb0, 0xa2, 0x5c,
         0x73, 0x92, 0x13, 0xdc, 0x83, 0xc9, 0xe2, 0x0d,
         0xe7, 0xa9, 0xd1, 0x28, 0xa8, 0x20, 0xe5, 0x64,
         0xf8, 0xc9, 0x9c, 0xd5, 0x8a, 0x21, 0xb7, 0x1a,
         0x9f, 0xe2, 0xf1, 0x8e, 0xdb, 0xa1, 0xfe, 0x21,
         0x10, 0x97, 0x82, 0x37, 0x6e, 0x6c, 0x5e, 0x8f,
         0xa1, 0xb9, 0x4c, 0x8a, 0x8c, 0xc8, 0xad, 0xf8,
         0x7c, 0x33, 0x9b, 0x8a, 0xf1, 0x9a, 0xcc, 0xb8,
         0xb2, 0x60, 0x16, 0x9e, 0x82, 0xf1, 0x9c, 0xc0,
         0xa0, 0xb2, 0x7d, 0x0b, 0xf3, 0x9d]"

text \<open>The directory of the table: (offset, length) of each string.\<close>

abbreviation S_LINUX :: "nat \<times> nat" where "S_LINUX \<equiv> (0, 5)"
abbreviation S_MARKER :: "nat \<times> nat" where "S_MARKER \<equiv> (5, 18)"
abbreviation S_PROC_MEM :: "nat \<times> nat" where "S_PROC_MEM \<equiv> (23, 14)"
abbreviation S_CURL :: "nat \<times> nat" where "S_CURL \<equiv> (37, 4)"
abbreviation S_C2_URL :: "nat \<times> nat" where "S_C2_URL \<equiv> (41, 29)"
abbreviation S_DASH_O :: "nat \<times> nat" where "S_DASH_O \<equiv> (70, 2)"
abbreviation S_PAYLOAD_PATH :: "nat \<times> nat" where "S_PAYLOAD_PATH \<equiv> (72, 15)"
abbreviation S_EXEC_CMD :: "nat \<times> nat" where "S_EXEC_CMD \<equiv> (87, 43)"
abbreviation S_PROC_STATUS :: "nat \<times> nat" where "S_PROC_STATUS \<equiv> (130, 17)"
abbreviation S_TRACER :: "nat \<times> nat" where "S_TRACER \<equiv> (147, 9)"
abbreviation S_DEV_NULL :: "nat \<times> nat" where "S_DEV_NULL \<equiv> (156, 9)"
abbreviation S_BIN_SH :: "nat \<times> nat" where "S_BIN_SH \<equiv> (165, 7)"
abbreviation S_DASH_C :: "nat \<times> nat" where "S_DASH_C \<equiv> (172, 2)"

section \<open>The process: its globals and the outcomes of its system calls\<close>

text \<open>
  The functions that \<^verbatim>\<open>main\<close> calls. The log \<open>trace\<close> of the process records
  each of them when it is entered, and the system calls that leave something behind.
\<close>

datatype fn = F_ad_ptrace | F_ad_timing | F_ad_proc | F_self_modify | F_check_os
  | F_check_marker | F_hide_proc | F_download | F_exec_payload

datatype event = Enter fn | Sys_write | Sys_fork | Sys_waitpid

text \<open>
  The globals \<^verbatim>\<open>_rk\<close>, \<^verbatim>\<open>_key_ready\<close> and \<^verbatim>\<open>_sm_flag\<close>, with the counters of
  the calls of \<^verbatim>\<open>malloc\<close>, \<^verbatim>\<open>fork\<close> and \<^verbatim>\<open>mprotect\<close> made so far and the
  log. \<open>faulted\<close> is set when a \<^verbatim>\<open>memcpy\<close> has read outside the string table: C
  gives such a read no meaning (the process may fault), and from then on the model says
  nothing about the process.
\<close>

record world =
  rk :: "byte list"
  key_ready :: int
  sm_flag :: int
  mallocs :: nat
  forks :: nat
  mprotects :: nat
  faulted :: bool
  trace :: "event list"

text \<open>The static initialisers: \<^verbatim>\<open>_rk\<close> is KS_LEN zero bytes, both flags are 0.\<close>

definition world0 :: world where
  "world0 = \<lparr>rk = replicate KS_LEN 0, key_ready = 0, sm_flag = 0,
             mallocs = 0, forks = 0, mprotects = 0, faulted = False, trace = []\<rparr>"

text \<open>
  What \<^verbatim>\<open>waitpid\<close> stores in \<^verbatim>\<open>status\<close>: \<^verbatim>\<open>WIFEXITED\<close> with its
  \<^verbatim>\<open>WEXITSTATUS\<close>, or not exited. What \<^verbatim>\<open>fork\<close> returns in the process that
  entered \<^verbatim>\<open>main\<close>: a negative value, or the pid of the child. The branch
  \<^verbatim>\<open>pid == 0\<close> runs in the child only, which redirects its output and calls
  \<^verbatim>\<open>execlp\<close>/\<^verbatim>\<open>execl\<close> or \<^verbatim>\<open>_exit(127)\<close>: it never returns into the dispatcher, and
  is not part of the run of the process modelled here.
\<close>

datatype wstatus = Exited nat | Not_exited

datatype fork_result = Fork_failed | Fork_parent

text \<open>
  The environment of one run: what each system or library call returns. \<open>malloc_ok n\<close>
  says whether the call number \<open>n\<close> of \<^verbatim>\<open>malloc\<close> (counted from 0) returns a buffer;
  \<open>fork_r n\<close> and \<open>waitpid_r n\<close> belong to the call number \<open>n\<close> of \<^verbatim>\<open>fork\<close>.
  \<open>fopen_r\<close> gives the lines that \<^verbatim>\<open>fgets\<close> reads from the file of that name, or
  \<open>None\<close> when \<^verbatim>\<open>fopen\<close> fails. \<open>tv1\<close> and \<open>tv2\<close> are the two readings of
  \<^verbatim>\<open>gettimeofday\<close> (seconds, microseconds). \<open>mprotect_r n\<close> is the result of the
  call number \<open>n\<close> of \<^verbatim>\<open>mprotect\<close>, \<open>uname_r\<close> the \<^verbatim>\<open>sysname\<close> that
  \<^verbatim>\<open>uname\<close> fills in, or \<open>None\<close> when it fails.
\<close>

record env =
  getpid :: "32 word"
  malloc_ok :: "nat \<Rightarrow> bool"
  ptrace_traceme :: int
  tv1 :: "int \<times> int"
  tv2 :: "int \<times> int"
  fopen_r :: "byte list \<Rightarrow> byte list list option"
  atoi :: "byte list \<Rightarrow> int"
  mprotect_r :: "nat \<Rightarrow> int"
  uname_r :: "byte list option"
  stat_r :: "byte list \<Rightarrow> int"
  openat_r :: "byte list \<Rightarrow> int"
  fork_r :: "nat \<Rightarrow> fork_result"
  waitpid_r :: "nat \<Rightarrow> wstatus"

definition enter :: "fn \<Rightarrow> world \<Rightarrow> world" where
  "enter f w = w\<lparr>trace := trace w @ [Enter f]\<rparr>"

definition malloc :: "env \<Rightarrow> world \<Rightarrow> bool \<times> world" where
  "malloc e w = (malloc_ok e (mallocs w), w\<lparr>mallocs := Suc (mallocs w)\<rparr>)"

definition sys_fork :: "env \<Rightarrow> world \<Rightarrow> fork_result \<times> world" where
  "sys_fork e w = (fork_r e (forks w), w\<lparr>forks := Suc (forks w), trace := trace w @ [Sys_fork]\<rparr>)"

definition sys_mprotect :: "env \<Rightarrow> world \<Rightarrow> int \<times> world" where
  "sys_mprotect e w = (mprotect_r e (mprotects w), w\<lparr>mprotects := Suc (mprotects w)\<rparr>)"

text \<open>\<^verbatim>\<open>waitpid\<close> for the child of the latest \<^verbatim>\<open>fork\<close>.\<close>

definition sys_waitpid :: "env \<Rightarrow> world \<Rightarrow> wstatus \<times> world" where
  "sys_waitpid e w = (waitpid_r e (forks w - 1), w\<lparr>trace := trace w @ [Sys_waitpid]\<rparr>)"

text \<open>The bytes of a C string: those before the first NUL.\<close>

definition cstr :: "byte list \<Rightarrow> byte list" where
  "cstr s = takeWhile (\<lambda>b. b \<noteq> 0) s"

section \<open>Key recovery and string decryption\<close>

text \<open>
  \<^verbatim>\<open>_recover_key\<close>. \<open>op\<close> is \<^verbatim>\<open>(unsigned int)(getpid())\<close>, and the test is on
  \<^verbatim>\<open>(_op * _op + _op) % 2\<close> in unsigned 32-bit arithmetic. Each loop stores into
  \<^verbatim>\<open>_rk[i]\<close> for \<open>i\<close> from 0 to KS_LEN - 1.
\<close>

definition recover_key :: "env \<Rightarrow> world \<Rightarrow> world" where
  "recover_key e w =
     (if key_ready w \<noteq> 0 then w
      else
        let mask = KS_MASK;
            op = getpid e;
            r = (if (op * op + op) mod 2 \<noteq> 0
                 then fold (\<lambda>n r. r[n := ks ! n XOR 0xFF]) [0..<KS_LEN] (rk w)
                 else fold (\<lambda>n r. r[n := ks ! n XOR mask]) [0..<KS_LEN] (rk w))
        in w\<lparr>rk := r, key_ready := 1\<rparr>)"

text \<open>
  \<^verbatim>\<open>_ds(off, len)\<close>: \<open>None\<close> is the NULL returned when \<^verbatim>\<open>malloc\<close> fails, otherwise
  the buffer of \<open>len + 1\<close> bytes, the last one the terminating NUL. The offsets and
  lengths of the directory are not negative, and are natural numbers here.
  \<^verbatim>\<open>memcpy(buf, _st + off, len)\<close> reads the bytes \<open>off\<close> to \<open>off + len - 1\<close> of the
  table: when they are not all inside it the read is outside the array, which sets
  \<open>faulted\<close> (the buffer is not NULL then, and its content stands for nothing). The
  cipher state is a fresh one from \<^verbatim>\<open>_rk\<close>, whose KS_LEN bytes are the key.
\<close>

definition ds :: "env \<Rightarrow> nat \<times> nat \<Rightarrow> world \<Rightarrow> byte list option \<times> world" where
  "ds e = (\<lambda>(off, len) w.
     let w1 = recover_key e w;
         (ok, w2) = malloc e w1
     in if \<not> ok then (None, w2)
        else
          let w3 = (if length st < off + len then w2\<lparr>faulted := True\<rparr> else w2);
              buf = take len (drop off st);
              ctx = the (rc4i (rk w3));
              (ctx', buf') = rc4x ctx buf
          in (Some (buf' @ [0]), w3))"


section \<open>The three probes, the flag and the checks\<close>

text \<open>
  \<^verbatim>\<open>_ad_ptrace\<close>: 1 when \<^verbatim>\<open>ptrace(PTRACE_TRACEME, ...)\<close> returns -1, else 0 (after a
  \<^verbatim>\<open>PTRACE_DETACH\<close> whose result is not read).
\<close>

definition ad_ptrace :: "env \<Rightarrow> world \<Rightarrow> int \<times> world" where
  "ad_ptrace e w =
     (let w1 = enter F_ad_ptrace w
      in if ptrace_traceme e = - 1 then (1, w1) else (0, w1))"

text \<open>
  \<^verbatim>\<open>_ad_timing\<close>: \<^verbatim>\<open>elapsed = (t2.tv_sec - t1.tv_sec) * 1000000 + (t2.tv_usec - t1.tv_usec)\<close>
  in 64-bit \<^verbatim>\<open>long\<close>, read here as an integer.
\<close>

definition ad_timing :: "env \<Rightarrow> world \<Rightarrow> int \<times> world" where
  "ad_timing e w =
     (let w1 = enter F_ad_timing w;
          (s1, u1) = tv1 e;
          (s2, u2) = tv2 e;
          elapsed = (s2 - s1) * 1000000 + (u2 - u1)
      in if elapsed > 500000 then (1, w1) else (0, w1))"

text \<open>
  The two library searches of \<^verbatim>\<open>_ad_proc\<close> on the bytes of C strings:
  \<^verbatim>\<open>strstr(h, n) != NULL\<close>, and the rest of the string from the first occurrence of a
  character, which \<^verbatim>\<open>strchr\<close> points to.
\<close>

fun strstr :: "byte list \<Rightarrow> byte list \<Rightarrow> bool" where
  "strstr [] n = (n = [])"
| "strstr (h # hs) n = (take (length n) (h # hs) = n \<or> strstr hs n)"

fun strchr :: "byte list \<Rightarrow> byte \<Rightarrow> byte list option" where
  "strchr [] c = None"
| "strchr (x # xs) c = (if x = c then Some (x # xs) else strchr xs c)"

text \<open>
  The \<^verbatim>\<open>fgets\<close> loop of \<^verbatim>\<open>_ad_proc\<close> over the remaining lines; the result is
  \<^verbatim>\<open>traced\<close>. The first line that contains the needle ends the loop. 0x3a is the colon,
  0x20 the space and 0x09 the tab.
\<close>

fun scan_status :: "env \<Rightarrow> byte list \<Rightarrow> byte list list \<Rightarrow> int" where
  "scan_status e needle [] = 0"
| "scan_status e needle (line # rest) =
     (if strstr line needle
      then (case strchr line 0x3a of
              None \<Rightarrow> 0
            | Some p \<Rightarrow>
                if atoi e (dropWhile (\<lambda>c. c = 0x20 \<or> c = 0x09) (tl p)) \<noteq> 0 then 1 else 0)
      else scan_status e needle rest)"

definition ad_proc :: "env \<Rightarrow> world \<Rightarrow> int \<times> world" where
  "ad_proc e w =
     (let w0 = enter F_ad_proc w;
          (path, w1) = ds e S_PROC_STATUS w0;
          (needle, w2) = ds e S_TRACER w1
      in if path = None \<or> needle = None then (0, w2)
         else (case fopen_r e (cstr (the path)) of
                 None \<Rightarrow> (0, w2)
               | Some lines \<Rightarrow> (scan_status e (cstr (the needle)) lines, w2)))"

text \<open>
  \<^verbatim>\<open>_hide_proc\<close>: the write of 512 zero bytes is logged; \<^verbatim>\<open>free\<close> and
  \<^verbatim>\<open>close\<close> leave nothing behind.
\<close>

definition hide_proc :: "env \<Rightarrow> world \<Rightarrow> world" where
  "hide_proc e w =
     (let w0 = enter F_hide_proc w;
          (pm, w1) = ds e S_PROC_MEM w0
      in if pm = None then w1
         else
           let fd = openat_r e (cstr (the pm))
           in if fd < 0 then w1
              else w1\<lparr>trace := trace w1 @ [Sys_write]\<rparr>)"

text \<open>
  \<^verbatim>\<open>_sm_check\<close> and \<^verbatim>\<open>_self_modify\<close>. Each call of \<^verbatim>\<open>_self_modify\<close> calls
  \<^verbatim>\<open>mprotect\<close>, and once more to restore the protection when the first call returned
  0; the result of the second call is not read.
\<close>

definition sm_check :: "world \<Rightarrow> int" where
  "sm_check w = sm_flag w"

definition self_modify :: "env \<Rightarrow> world \<Rightarrow> world" where
  "self_modify e w =
     (let w1 = enter F_self_modify w;
          (r, w2) = sys_mprotect e w1
      in if r = 0
         then (let w3 = w2\<lparr>sm_flag := 1\<rparr>;
                   (r', w4) = sys_mprotect e w3
               in w4)
         else w2)"

text \<open>
  The opaque predicates on a 32-bit \<^verbatim>\<open>int\<close>: the arithmetic wraps, \<^verbatim>\<open>%\<close> is the
  signed remainder of C, which truncates towards zero.
\<close>

definition opaque_true :: "32 word \<Rightarrow> int" where
  "opaque_true x = (if sint (x * (x + 1)) smod 2 = 0 then 1 else 0)"

definition opaque_false :: "32 word \<Rightarrow> int" where
  "opaque_false x = (if sint (x * x + x + 1) smod 2 = 0 then 1 else 0)"

text \<open>\<^verbatim>\<open>_check_os\<close>: \<^verbatim>\<open>strcmp\<close> compares the two C strings.\<close>

definition check_os :: "env \<Rightarrow> world \<Rightarrow> int \<times> world" where
  "check_os e w =
     (let w0 = enter F_check_os w
      in case uname_r e of
           None \<Rightarrow> (0, w0)
         | Some sysname \<Rightarrow>
             let (target, w1) = ds e S_LINUX w0
             in if target = None then (0, w1)
                else (if cstr sysname = cstr (the target) then 1 else 0, w1))"

text \<open>\<^verbatim>\<open>_check_marker\<close>: 1 when \<^verbatim>\<open>stat\<close> returns 0.\<close>

definition check_marker :: "env \<Rightarrow> world \<Rightarrow> int \<times> world" where
  "check_marker e w =
     (let w0 = enter F_check_marker w;
          (marker, w1) = ds e S_MARKER w0
      in if marker = None then (0, w1)
         else (if stat_r e (cstr (the marker)) = 0 then 1 else 0, w1))"

section \<open>Download and execution\<close>

text \<open>
  \<^verbatim>\<open>_download\<close>, in the process that called it: the five strings are decrypted before
  any of them is tested.
\<close>

definition download :: "env \<Rightarrow> world \<Rightarrow> int \<times> world" where
  "download e w =
     (let w0 = enter F_download w;
          (curl_bin, w1) = ds e S_CURL w0;
          (c2_url, w2) = ds e S_C2_URL w1;
          (dash_o, w3) = ds e S_DASH_O w2;
          (out_path, w4) = ds e S_PAYLOAD_PATH w3;
          (dev_null, w5) = ds e S_DEV_NULL w4
      in if curl_bin = None \<or> c2_url = None \<or> dash_o = None \<or> out_path = None
            \<or> dev_null = None
         then (- 1, w5)
         else
           let (pid, w6) = sys_fork e w5
           in if pid = Fork_failed then (- 1, w6)
              else
                let (status, w7) = sys_waitpid e w6
                in if status = Exited 0 then (0, w7) else (- 1, w7))"

text \<open>\<^verbatim>\<open>_exec_payload\<close>, in the process that called it.\<close>

definition exec_payload :: "env \<Rightarrow> world \<Rightarrow> int \<times> world" where
  "exec_payload e w =
     (let w0 = enter F_exec_payload w;
          (sh, w1) = ds e S_BIN_SH w0;
          (dash_c, w2) = ds e S_DASH_C w1;
          (cmd, w3) = ds e S_EXEC_CMD w2
      in if sh = None \<or> dash_c = None \<or> cmd = None then (- 1, w3)
         else
           let (pid, w4) = sys_fork e w3
           in if pid = Fork_failed then (- 1, w4)
              else
                let (status, w5) = sys_waitpid e w4
                in (if status = Exited 0 then 0 else - 1, w5))"

section \<open>The dispatcher of main\<close>

abbreviation ST_INIT :: "32 word" where "ST_INIT \<equiv> 0x7a3c"
abbreviation ST_ANTI_DEBUG_1 :: "32 word" where "ST_ANTI_DEBUG_1 \<equiv> 0x1f82"
abbreviation ST_ANTI_DEBUG_2 :: "32 word" where "ST_ANTI_DEBUG_2 \<equiv> 0x4db1"
abbreviation ST_ANTI_DEBUG_3 :: "32 word" where "ST_ANTI_DEBUG_3 \<equiv> 0x62e9"
abbreviation ST_SELF_MODIFY :: "32 word" where "ST_SELF_MODIFY \<equiv> 0x35af"
abbreviation ST_CHECK_OS :: "32 word" where "ST_CHECK_OS \<equiv> 0x58c4"
abbreviation ST_CHECK_MARKER :: "32 word" where "ST_CHECK_MARKER \<equiv> 0x0d17"
abbreviation ST_HIDE_PROC :: "32 word" where "ST_HIDE_PROC \<equiv> 0x93be"
abbreviation ST_DOWNLOAD :: "32 word" where "ST_DOWNLOAD \<equiv> 0xa420"
abbreviation ST_EXEC :: "32 word" where "ST_EXEC \<equiv> 0xb5f6"
abbreviation ST_EXIT_OK :: "32 word" where "ST_EXIT_OK \<equiv> 0xcccc"
abbreviation ST_EXIT_FAIL :: "32 word" where "ST_EXIT_FAIL \<equiv> 0xdddd"

text \<open>
  The locals of \<^verbatim>\<open>main\<close> and the globals. \<open>path\<close> lists the states that the
  \<^verbatim>\<open>switch\<close> has dispatched and left by \<^verbatim>\<open>break\<close>, oldest first.
\<close>

record mstate =
  state :: "32 word"
  retval :: int
  sentinel :: "32 word"
  glob :: world
  path :: "32 word list"

definition main_init :: "env \<Rightarrow> mstate" where
  "main_init e = \<lparr>state = ST_INIT, retval = 1, sentinel = getpid e, glob = world0, path = []\<rparr>"

text \<open>
  One pass through the \<^verbatim>\<open>switch\<close>: \<open>Inl r\<close> is \<^verbatim>\<open>return r\<close>, \<open>Inr\<close> is the
  state after \<^verbatim>\<open>break\<close>.
\<close>

definition step :: "env \<Rightarrow> mstate \<Rightarrow> int + mstate" where
  "step e ms0 =
     (let ms = ms0\<lparr>path := path ms0 @ [state ms0]\<rparr>
      in
        if state ms = ST_INIT then
          Inr (ms\<lparr>state := (if opaque_true (sentinel ms) \<noteq> 0 then ST_ANTI_DEBUG_1
                              else ST_EXIT_FAIL)\<rparr>)
        else if state ms = ST_ANTI_DEBUG_1 then
          (let (r, w) = ad_ptrace e (glob ms)
           in Inr (ms\<lparr>state := (if r \<noteq> 0 then ST_EXIT_FAIL
                                  else (ST_ANTI_DEBUG_2 XOR 0x0000) + 0),
                      glob := w\<rparr>))
        else if state ms = ST_ANTI_DEBUG_2 then
          (let (r, w) = ad_timing e (glob ms)
           in Inr (ms\<lparr>state := (if r \<noteq> 0 then ST_EXIT_FAIL else ST_ANTI_DEBUG_3),
                      glob := w\<rparr>))
        else if state ms = ST_ANTI_DEBUG_3 then
          (let (r, w) = ad_proc e (glob ms)
           in Inr (ms\<lparr>state := (if r \<noteq> 0 then ST_EXIT_FAIL else ST_SELF_MODIFY),
                      glob := w\<rparr>))
        else if state ms = ST_SELF_MODIFY then
          (let w = self_modify e (glob ms)
           in Inr (ms\<lparr>state := (if sm_check w \<noteq> 0 then ST_CHECK_OS else ST_EXIT_FAIL),
                      glob := w\<rparr>))
        else if state ms = ST_CHECK_OS then
          (let (r, w) = check_os e (glob ms)
           in Inr (ms\<lparr>state := (if r = 0 then ST_EXIT_FAIL
                                  else if opaque_false (sentinel ms) \<noteq> 0 then ST_INIT
                                  else ST_CHECK_MARKER),
                      glob := w\<rparr>))
        else if state ms = ST_CHECK_MARKER then
          (let (r, w) = check_marker e (glob ms)
           in Inr (ms\<lparr>state := (if r \<noteq> 0 then ST_EXIT_FAIL else ST_HIDE_PROC),
                      glob := w\<rparr>))
        else if state ms = ST_HIDE_PROC then
          (let w = hide_proc e (glob ms)
           in Inr (ms\<lparr>state := ST_DOWNLOAD, glob := w\<rparr>))
        else if state ms = ST_DOWNLOAD then
          (let (r, w) = download e (glob ms)
           in Inr (ms\<lparr>state := (if r \<noteq> 0 then ST_EXIT_FAIL else ST_EXEC), glob := w\<rparr>))
        else if state ms = ST_EXEC then
          (let (r, w) = exec_payload e (glob ms)
           in Inr (ms\<lparr>state := ST_EXIT_OK,
                      retval := (if r = 0 then 0 else retval ms),
                      glob := w\<rparr>))
        else if state ms = ST_EXIT_OK then Inl (retval ms)
        else if state ms = ST_EXIT_FAIL then Inl 1
        else Inl 1)"

text \<open>
  \<^verbatim>\<open>while (1) switch (state) ...\<close>: the result is the value returned by \<^verbatim>\<open>main\<close>
  and the state it returned in, \<open>None\<close> if the loop never returns.
\<close>

partial_function (option) main_loop :: "env \<Rightarrow> mstate \<Rightarrow> (int \<times> mstate) option" where
  "main_loop e ms =
     (case step e ms of
        Inl r \<Rightarrow> Some (r, ms)
      | Inr ms' \<Rightarrow> main_loop e ms')"

declare main_loop.simps [code]

definition main :: "env \<Rightarrow> (int \<times> mstate) option" where
  "main e = main_loop e (main_init e)"

text \<open>The states that a run passes through: the start, and each state after a \<^verbatim>\<open>break\<close>.\<close>

inductive reach :: "env \<Rightarrow> mstate \<Rightarrow> bool" for e :: env where
  reach_init: "reach e (main_init e)"
| reach_step: "reach e ms \<Longrightarrow> step e ms = Inr ms' \<Longrightarrow> reach e ms'"

code_pred reach .


section \<open>Notions used by the properties\<close>

text \<open>A table is a permutation of 0..255: it has the bytes 0, 1, ..., 255, each once.\<close>

definition perm256 :: "byte list \<Rightarrow> bool" where
  "perm256 T = (mset T = mset (map word_of_nat [0..<256]))"

text \<open>
  The key that \<^verbatim>\<open>_recover_key\<close> is meant to leave in \<^verbatim>\<open>_rk\<close>, and the plaintext
  of a table entry under it.
\<close>

definition key :: "byte list" where
  "key = map (\<lambda>b. b XOR KS_MASK) ks"

definition plain :: "nat \<times> nat \<Rightarrow> byte list" where
  "plain = (\<lambda>(off, len). snd (rc4x (the (rc4i key)) (take len (drop off st))))"

text \<open>
  The globals are well formed: \<^verbatim>\<open>_rk\<close> has its KS_LEN bytes, and holds the key once
  \<^verbatim>\<open>_key_ready\<close> is set.
\<close>

definition wf_world :: "world \<Rightarrow> bool" where
  "wf_world w = (length (rk w) = KS_LEN \<and> (key_ready w = 0 \<or> rk w = key))"

text \<open>The twelve states of the dispatcher, and their position in the order of the run.\<close>

definition twelve :: "32 word list" where
  "twelve = [ST_INIT, ST_ANTI_DEBUG_1, ST_ANTI_DEBUG_2, ST_ANTI_DEBUG_3, ST_SELF_MODIFY,
             ST_CHECK_OS, ST_CHECK_MARKER, ST_HIDE_PROC, ST_DOWNLOAD, ST_EXEC,
             ST_EXIT_OK, ST_EXIT_FAIL]"

definition rank :: "32 word \<Rightarrow> nat" where
  "rank s =
     (if s = ST_INIT then 0 else if s = ST_ANTI_DEBUG_1 then 1
      else if s = ST_ANTI_DEBUG_2 then 2 else if s = ST_ANTI_DEBUG_3 then 3
      else if s = ST_SELF_MODIFY then 4 else if s = ST_CHECK_OS then 5
      else if s = ST_CHECK_MARKER then 6 else if s = ST_HIDE_PROC then 7
      else if s = ST_DOWNLOAD then 8 else if s = ST_EXEC then 9 else 10)"

text \<open>The states dispatched by a run that returned in \<open>ms\<close>, in order.\<close>

definition visited :: "mstate \<Rightarrow> 32 word list" where
  "visited ms = path ms @ [state ms]"

text \<open>
  What holds of every state of a run: the current state and the states left behind are
  among the twelve, those left behind come strictly earlier in the order, \<^verbatim>\<open>retval\<close> is still 1 before
  \<^verbatim>\<open>ST_EXIT_OK\<close>, and the log has \<^verbatim>\<open>_download\<close> and \<^verbatim>\<open>_exec_payload\<close> only
  from the states that follow their calls.
\<close>

definition dinv :: "mstate \<Rightarrow> bool" where
  "dinv ms =
     (set (visited ms) \<subseteq> set twelve
      \<and> sorted_wrt (\<lambda>a b. rank a < rank b) (visited ms)
      \<and> (state ms = ST_EXIT_OK \<or> retval ms = 1)
      \<and> (Enter F_download \<in> set (trace (glob ms)) \<longrightarrow> 9 \<le> rank (state ms))
      \<and> (Enter F_exec_payload \<in> set (trace (glob ms)) \<longrightarrow> state ms = ST_EXIT_OK)
      \<and> wf_world (glob ms))"

text \<open>\<open>n\<close> passes through the \<^verbatim>\<open>switch\<close>, stopping where it returns.\<close>

fun steps :: "env \<Rightarrow> nat \<Rightarrow> mstate \<Rightarrow> mstate" where
  "steps e 0 ms = ms"
| "steps e (Suc n) ms = (case step e ms of Inl r \<Rightarrow> ms | Inr ms' \<Rightarrow> steps e n ms')"

text \<open>
  An environment in which every call succeeds and nothing is detected: no tracer, 40
  microseconds between the two clock readings, the status file cannot be opened,
  \<^verbatim>\<open>uname\<close> gives the plaintext of the first entry of the table, S_LINUX (it
  evaluates to the five bytes of "Linux"), the marker file
  and the memory file are absent, both children exit with status 0.
\<close>

definition env_ok :: env where
  "env_ok = \<lparr>getpid = 4242, malloc_ok = (\<lambda>n. True), ptrace_traceme = 0,
             tv1 = (100, 0), tv2 = (100, 40), fopen_r = (\<lambda>p. None), atoi = (\<lambda>s. 0),
             mprotect_r = (\<lambda>n. 0), uname_r = Some (plain S_LINUX), stat_r = (\<lambda>p. - 1),
             openat_r = (\<lambda>p. - 1), fork_r = (\<lambda>n. Fork_parent),
             waitpid_r = (\<lambda>n. Exited 0)\<rparr>"

text \<open>The same, with the first call of \<^verbatim>\<open>malloc\<close> failing and the later ones not.\<close>

definition env_nomem :: env where
  "env_nomem = env_ok\<lparr>malloc_ok := (\<lambda>n. n \<noteq> 0)\<rparr>"

text \<open>The same as \<open>env_ok\<close>, with a tracer present: \<^verbatim>\<open>PTRACE_TRACEME\<close> is refused.\<close>

definition env_traced :: env where
  "env_traced = env_ok\<lparr>ptrace_traceme := - 1\<rparr>"

text \<open>The same as \<open>env_ok\<close>, with the marker file present: \<^verbatim>\<open>stat\<close> returns 0.\<close>

definition env_marked :: env where
  "env_marked = env_ok\<lparr>stat_r := (\<lambda>p. 0)\<rparr>"

text \<open>The same as \<open>env_ok\<close>, with the sixth call of \<^verbatim>\<open>malloc\<close> failing.\<close>

definition env_nofetch :: env where
  "env_nofetch = env_ok\<lparr>malloc_ok := (\<lambda>n. n \<noteq> 5)\<rparr>"

text \<open>The same as \<open>env_ok\<close>, with the call number \<open>k\<close> of \<^verbatim>\<open>malloc\<close> failing.\<close>

definition env_fail :: "nat \<Rightarrow> env" where
  "env_fail k = env_ok\<lparr>malloc_ok := (\<lambda>n. n \<noteq> k)\<rparr>"

text \<open>
  The same as \<open>env_ok\<close>, with the first call of \<^verbatim>\<open>mprotect\<close> refused and the later
  ones granted.
\<close>

definition env_flaky :: env where
  "env_flaky = env_ok\<lparr>mprotect_r := (\<lambda>n. if n = 0 then - 1 else 0)\<rparr>"

text \<open>
  The directory of the string table, and what it is for an entry to lie inside the
  table.
\<close>

definition directory :: "(nat \<times> nat) list" where
  "directory = [S_LINUX, S_MARKER, S_PROC_MEM, S_CURL, S_C2_URL, S_DASH_O, S_PAYLOAD_PATH,
                S_EXEC_CMD, S_PROC_STATUS, S_TRACER, S_DEV_NULL, S_BIN_SH, S_DASH_C]"

definition in_table :: "nat \<times> nat \<Rightarrow> bool" where
  "in_table = (\<lambda>(off, len). off + len \<le> length st)"

text \<open>The identity table with both cursors at 0.\<close>

definition rc4_identity :: rc4 where
  "rc4_identity = \<lparr>S = map word_of_nat [0..<256], i = 0, j = 0\<rparr>"


section \<open>Lemmas on the cipher\<close>


lemma perm256_length: "perm256 T \<Longrightarrow> length T = 256"
  unfolding perm256_def using mset_eq_length[of T "map word_of_nat [0..<256]"] by simp

lemma fold_fill:
  "n \<le> length xs \<Longrightarrow> fold (\<lambda>m T. T[m := f m]) [0..<n] xs = map f [0..<n] @ drop n xs"
proof (induction n)
  case 0
  then show ?case by simp
next
  case (Suc n)
  then have "n < length xs" by simp
  then have d: "drop n xs = xs ! n # drop (Suc n) xs" by (simp add: Cons_nth_drop_Suc)
  from Suc show ?case by (simp add: list_update_append d)
qed

lemma fill_identity:
  "fold (\<lambda>n T. T[n := word_of_nat n]) [0..<256] (replicate 256 (0::byte)) = map word_of_nat [0..<256]"
  using fold_fill[of 256 "replicate 256 (0::byte)" word_of_nat] by simp

lemma fold_invariant:
  "P s \<Longrightarrow> (\<And>x s. x \<in> set xs \<Longrightarrow> P s \<Longrightarrow> P (f x s)) \<Longrightarrow> P (fold f xs s)"
  by (induction xs arbitrary: s) auto

lemma nat_and_255: "(x::nat) AND 255 < 256"
proof -
  have "x AND 255 = x AND mask 8" by (simp add: mask_eq_exp_minus_1)
  also have "\<dots> = x mod 256" by (simp add: take_bit_eq_mask[symmetric] take_bit_eq_mod)
  finally show ?thesis by simp
qed

lemma int_and_255: "nat ((x::int) AND 255) < 256"
proof -
  have "x AND 255 = x AND mask 8" by (simp add: mask_eq_exp_minus_1)
  also have "\<dots> = x mod 256" by (simp add: take_bit_eq_mask[symmetric] take_bit_eq_mod)
  finally show ?thesis by simp
qed

lemma swap_perm256:
  "perm256 T \<Longrightarrow> a < 256 \<Longrightarrow> b < 256 \<Longrightarrow> perm256 (T[a := T ! b, b := T ! a])"
  using mset_swap[of b T a] perm256_length[of T] by (simp add: perm256_def)

lemma rc4i_round_perm:
  "perm256 T \<Longrightarrow> n < 256 \<Longrightarrow> perm256 (fst (rc4i_round k n (T, jj)))"
  by (simp add: rc4i_round_def Let_def swap_perm256 nat_and_255)

lemma rc4x_round_perm:
  "perm256 (S c) \<Longrightarrow> perm256 (S (fst (rc4x_round c)))"
  by (simp add: rc4x_round_def Let_def swap_perm256 int_and_255)

lemma rc4x_perm: "perm256 (S c) \<Longrightarrow> perm256 (S (fst (rc4x c d)))"
proof (induction d arbitrary: c)
  case Nil
  then show ?case by simp
next
  case (Cons b d)
  then show ?case
    using rc4x_round_perm[of c] by (simp add: split_def Let_def)
qed

lemma rc4x_twice: "snd (rc4x c (snd (rc4x c d))) = d"
  by (induction d arbitrary: c) (simp_all add: split_def Let_def xor.assoc)

lemma rc4i_perm: "k \<noteq> [] \<Longrightarrow> \<exists>c. rc4i k = Some c \<and> perm256 (S c)"
proof -
  assume "k \<noteq> []"
  let ?T0 = "map word_of_nat [0..<256] :: byte list"
  have "perm256 (fst (fold (rc4i_round k) [0..<256] (?T0, 0)))"
  proof (rule fold_invariant[where P = "\<lambda>s. perm256 (fst s)"])
    show "perm256 (fst (?T0, 0::nat))" by (simp add: perm256_def)
  next
    fix x and s :: "byte list \<times> nat" assume "x \<in> set [0..<256::nat]" "perm256 (fst s)"
    then show "perm256 (fst (rc4i_round k x s))"
      using rc4i_round_perm[of "fst s" x k "snd s"] by simp
  qed
  with \<open>k \<noteq> []\<close> show ?thesis
    by (simp add: rc4i_def fill_identity split_def Let_def)
qed


section \<open>Lemmas on key recovery and the opaque predicates\<close>


lemma map_index: "map (\<lambda>n. f (xs ! n)) [0..<length xs] = map f xs"
proof -
  have "map f (map ((!) xs) [0..<length xs]) = map f xs" by (simp only: map_nth)
  then show ?thesis by (simp only: map_map o_def)
qed

lemma length_ks: "length ks = KS_LEN"
  by (simp add: ks_def)

lemma pid_parity: "((x::32 word) * x + x) mod 2 = 0"
  by (simp add: mod_2_eq_odd)

lemma fold_unmask:
  "length r = KS_LEN \<Longrightarrow> fold (\<lambda>n r. r[n := ks ! n XOR m]) [0..<KS_LEN] r = map (\<lambda>b. b XOR m) ks"
  using fold_fill[of KS_LEN r "\<lambda>n. ks ! n XOR m"] map_index[of "\<lambda>b. b XOR m" ks]
  by (simp add: length_ks)

lemma recover_key_fresh:
  "key_ready w = 0 \<Longrightarrow> length (rk w) = KS_LEN \<Longrightarrow> recover_key e w = w\<lparr>rk := key, key_ready := 1\<rparr>"
  by (simp add: recover_key_def pid_parity fold_unmask key_def)

lemma recover_key_ready: "key_ready w \<noteq> 0 \<Longrightarrow> recover_key e w = w"
  by (simp add: recover_key_def)

lemma key_ready_recover_key: "key_ready (recover_key e w) \<noteq> 0"
  by (simp add: recover_key_def Let_def)

lemma recover_key_twice: "recover_key e' (recover_key e w) = recover_key e w"
  by (simp add: recover_key_ready key_ready_recover_key)

lemma recover_key_funpow: "0 < N \<Longrightarrow> (recover_key e ^^ N) w = recover_key e w"
proof (induction N)
  case 0
  then show ?case by simp
next
  case (Suc N)
  show ?case
  proof (cases "N = 0")
    case True
    then show ?thesis by simp
  next
    case False
    with Suc show ?thesis by (simp add: recover_key_twice)
  qed
qed

lemma even_sint32: "even (sint (x::32 word)) = even x"
  using bit_sint_iff[of x 0] by (simp add: bit_0)

lemma smod2: "((a::int) smod 2 = 0) = even a"
  by (auto simp: smod_int_alt_def sgn_if)

lemma opaque_true_1: "opaque_true x = 1"
  by (simp add: opaque_true_def smod2 even_sint32)

lemma opaque_false_0: "opaque_false x = 0"
  by (simp add: opaque_false_def smod2 even_sint32)



section \<open>What each function does to the globals and the log\<close>


lemma recover_key_frame [simp]:
  "trace (recover_key e w) = trace w"
  "mprotects (recover_key e w) = mprotects w"
  "faulted (recover_key e w) = faulted w"
  "sm_flag (recover_key e w) = sm_flag w"
  "mallocs (recover_key e w) = mallocs w"
  "forks (recover_key e w) = forks w"
  by (simp_all add: recover_key_def Let_def)

lemma length_key: "length key = KS_LEN"
  by (simp add: key_def length_ks)

lemma wf_world_upd [simp]:
  "wf_world (w\<lparr>trace := t\<rparr>) = wf_world w"
  "wf_world (w\<lparr>forks := n\<rparr>) = wf_world w"
  "wf_world (w\<lparr>mallocs := n\<rparr>) = wf_world w"
  "wf_world (w\<lparr>sm_flag := v\<rparr>) = wf_world w"
  "wf_world (w\<lparr>mprotects := n\<rparr>) = wf_world w"
  "wf_world (w\<lparr>faulted := b\<rparr>) = wf_world w"
  by (simp_all add: wf_world_def)

lemma wf_world0: "wf_world world0"
  by (simp add: wf_world_def world0_def)

lemma wf_recover_key:
  assumes "wf_world w"
  shows "wf_world (recover_key e w)" and "rk (recover_key e w) = key"
proof -
  have "wf_world (recover_key e w) \<and> rk (recover_key e w) = key"
  proof (cases "key_ready w = 0")
    case True
    with assms have "recover_key e w = w\<lparr>rk := key, key_ready := 1\<rparr>"
      by (simp add: recover_key_fresh wf_world_def)
    then show ?thesis by (simp add: wf_world_def key_def length_ks)
  next
    case False
    with assms show ?thesis by (simp add: recover_key_ready wf_world_def length_key)
  qed
  then show "wf_world (recover_key e w)" and "rk (recover_key e w) = key" by simp_all
qed

text \<open>The key that \<^verbatim>\<open>_ds\<close> hands to \<^verbatim>\<open>_rc4i\<close> is never empty.\<close>

lemma ds_cipher_state:
  "wf_world w \<Longrightarrow> \<exists>c. rc4i (rk (recover_key e w)) = Some c \<and> perm256 (S c)"
proof -
  assume "wf_world w"
  then have "rk (recover_key e w) = key" by (rule wf_recover_key(2))
  moreover have "key \<noteq> []" using length_key by auto
  ultimately show ?thesis using rc4i_perm[of key] by simp
qed

lemma length_st: "length st = 174"
  by (simp add: st_def)

lemma ds_faulted:
  "faulted (snd (ds e (off, len) w)) =
     (faulted w \<or> (malloc_ok e (mallocs w) \<and> length st < off + len))"
  by (simp add: ds_def malloc_def Let_def split_def)

lemma ds_fst_None: "(fst (ds e x w) = None) = (\<not> malloc_ok e (mallocs w))"
  by (cases x) (simp add: ds_def malloc_def Let_def split_def)

lemma ds_plain:
  "wf_world w \<Longrightarrow> malloc_ok e (mallocs w) \<Longrightarrow> fst (ds e x w) = Some (plain x @ [0])"
  by (cases x) (simp add: ds_def malloc_def Let_def split_def plain_def wf_recover_key)

lemma ds_frame [simp]:
  "trace (snd (ds e x w)) = trace w"
  "sm_flag (snd (ds e x w)) = sm_flag w"
  "mallocs (snd (ds e x w)) = Suc (mallocs w)"
  "forks (snd (ds e x w)) = forks w"
  "mprotects (snd (ds e x w)) = mprotects w"
  by (cases x; simp add: ds_def malloc_def Let_def split_def)+

lemma wf_ds [simp]: "wf_world w \<Longrightarrow> wf_world (snd (ds e x w))"
  using wf_recover_key(1)[of w e] by (cases x) (simp add: ds_def malloc_def Let_def split_def)

lemma enter_frame [simp]:
  "trace (enter f w) = trace w @ [Enter f]"
  "sm_flag (enter f w) = sm_flag w"
  "mallocs (enter f w) = mallocs w"
  "forks (enter f w) = forks w"
  "mprotects (enter f w) = mprotects w"
  "faulted (enter f w) = faulted w"
  "wf_world (enter f w) = wf_world w"
  by (simp_all add: enter_def)

lemma ad_ptrace_eq:
  "ad_ptrace e w = (if ptrace_traceme e = - 1 then 1 else 0, enter F_ad_ptrace w)"
  by (simp add: ad_ptrace_def Let_def)

lemma ad_timing_snd: "snd (ad_timing e w) = enter F_ad_timing w"
  by (simp add: ad_timing_def Let_def split_def)

lemma ad_proc_snd:
  "snd (ad_proc e w) = snd (ds e S_TRACER (snd (ds e S_PROC_STATUS (enter F_ad_proc w))))"
  by (simp add: ad_proc_def Let_def split_def split: option.splits)

lemma self_modify_frame:
  "trace (self_modify e w) = trace w @ [Enter F_self_modify]"
  "sm_flag (self_modify e w) = (if mprotect_r e (mprotects w) = 0 then 1 else sm_flag w)"
  "mallocs (self_modify e w) = mallocs w"
  "forks (self_modify e w) = forks w"
  "faulted (self_modify e w) = faulted w"
  "wf_world (self_modify e w) = wf_world w"
  by (simp_all add: self_modify_def sys_mprotect_def Let_def split_def)

lemma check_os_snd:
  "snd (check_os e w) =
     (if uname_r e = None then enter F_check_os w else snd (ds e S_LINUX (enter F_check_os w)))"
  by (simp add: check_os_def Let_def split_def split: option.splits)

lemma check_marker_snd:
  "snd (check_marker e w) = snd (ds e S_MARKER (enter F_check_marker w))"
  by (simp add: check_marker_def Let_def split_def)

lemma hide_proc_frame:
  "sm_flag (hide_proc e w) = sm_flag w"
  "wf_world w \<Longrightarrow> wf_world (hide_proc e w)"
  "Enter g \<in> set (trace (hide_proc e w)) = (g = F_hide_proc \<or> Enter g \<in> set (trace w))"
  by (auto simp: hide_proc_def Let_def split_def)

lemma download_frame:
  "sm_flag (snd (download e w)) = sm_flag w"
  "wf_world w \<Longrightarrow> wf_world (snd (download e w))"
  "Enter g \<in> set (trace (snd (download e w))) = (g = F_download \<or> Enter g \<in> set (trace w))"
  by (auto simp: download_def sys_fork_def sys_waitpid_def Let_def split_def)

lemma exec_payload_frame:
  "sm_flag (snd (exec_payload e w)) = sm_flag w"
  "wf_world w \<Longrightarrow> wf_world (snd (exec_payload e w))"
  "Enter g \<in> set (trace (snd (exec_payload e w))) = (g = F_exec_payload \<or> Enter g \<in> set (trace w))"
  by (auto simp: exec_payload_def sys_fork_def sys_waitpid_def Let_def split_def)


lemma step_INIT:
  "state ms = ST_INIT \<Longrightarrow>
   step e ms = Inr (ms\<lparr>state := ST_ANTI_DEBUG_1, path := path ms @ [ST_INIT]\<rparr>)"
  by (simp add: step_def opaque_true_1)

lemma step_ANTI_DEBUG_1:
  "state ms = ST_ANTI_DEBUG_1 \<Longrightarrow>
   step e ms = Inr (ms\<lparr>state := (if fst (ad_ptrace e (glob ms)) \<noteq> 0 then ST_EXIT_FAIL
                                 else ST_ANTI_DEBUG_2),
                     glob := snd (ad_ptrace e (glob ms)),
                     path := path ms @ [ST_ANTI_DEBUG_1]\<rparr>)"
  by (simp add: step_def split_def)

lemma step_ANTI_DEBUG_2:
  "state ms = ST_ANTI_DEBUG_2 \<Longrightarrow>
   step e ms = Inr (ms\<lparr>state := (if fst (ad_timing e (glob ms)) \<noteq> 0 then ST_EXIT_FAIL
                                 else ST_ANTI_DEBUG_3),
                     glob := snd (ad_timing e (glob ms)),
                     path := path ms @ [ST_ANTI_DEBUG_2]\<rparr>)"
  by (simp add: step_def split_def)

lemma step_ANTI_DEBUG_3:
  "state ms = ST_ANTI_DEBUG_3 \<Longrightarrow>
   step e ms = Inr (ms\<lparr>state := (if fst (ad_proc e (glob ms)) \<noteq> 0 then ST_EXIT_FAIL
                                 else ST_SELF_MODIFY),
                     glob := snd (ad_proc e (glob ms)),
                     path := path ms @ [ST_ANTI_DEBUG_3]\<rparr>)"
  by (simp add: step_def split_def)

lemma step_SELF_MODIFY:
  "state ms = ST_SELF_MODIFY \<Longrightarrow>
   step e ms = Inr (ms\<lparr>state := (if sm_check (self_modify e (glob ms)) \<noteq> 0 then ST_CHECK_OS
                                 else ST_EXIT_FAIL),
                     glob := self_modify e (glob ms),
                     path := path ms @ [ST_SELF_MODIFY]\<rparr>)"
  by (simp add: step_def Let_def)

lemma step_CHECK_OS:
  "state ms = ST_CHECK_OS \<Longrightarrow>
   step e ms = Inr (ms\<lparr>state := (if fst (check_os e (glob ms)) = 0 then ST_EXIT_FAIL
                                 else ST_CHECK_MARKER),
                     glob := snd (check_os e (glob ms)),
                     path := path ms @ [ST_CHECK_OS]\<rparr>)"
  by (simp add: step_def split_def opaque_false_0)

lemma step_CHECK_MARKER:
  "state ms = ST_CHECK_MARKER \<Longrightarrow>
   step e ms = Inr (ms\<lparr>state := (if fst (check_marker e (glob ms)) \<noteq> 0 then ST_EXIT_FAIL
                                 else ST_HIDE_PROC),
                     glob := snd (check_marker e (glob ms)),
                     path := path ms @ [ST_CHECK_MARKER]\<rparr>)"
  by (simp add: step_def split_def)

lemma step_HIDE_PROC:
  "state ms = ST_HIDE_PROC \<Longrightarrow>
   step e ms = Inr (ms\<lparr>state := ST_DOWNLOAD, glob := hide_proc e (glob ms),
                     path := path ms @ [ST_HIDE_PROC]\<rparr>)"
  by (simp add: step_def Let_def)

lemma step_DOWNLOAD:
  "state ms = ST_DOWNLOAD \<Longrightarrow>
   step e ms = Inr (ms\<lparr>state := (if fst (download e (glob ms)) \<noteq> 0 then ST_EXIT_FAIL
                                 else ST_EXEC),
                     glob := snd (download e (glob ms)),
                     path := path ms @ [ST_DOWNLOAD]\<rparr>)"
  by (simp add: step_def split_def)

lemma step_EXEC:
  "state ms = ST_EXEC \<Longrightarrow>
   step e ms = Inr (ms\<lparr>state := ST_EXIT_OK,
                     retval := (if fst (exec_payload e (glob ms)) = 0 then 0 else retval ms),
                     glob := snd (exec_payload e (glob ms)),
                     path := path ms @ [ST_EXEC]\<rparr>)"
  by (simp add: step_def split_def)

lemma step_EXIT_OK: "state ms = ST_EXIT_OK \<Longrightarrow> step e ms = Inl (retval ms)"
  by (simp add: step_def)

lemma step_EXIT_FAIL: "state ms = ST_EXIT_FAIL \<Longrightarrow> step e ms = Inl 1"
  by (simp add: step_def)

lemma step_default: "state ms \<notin> set twelve \<Longrightarrow> step e ms = Inl 1"
  by (simp add: step_def twelve_def)

lemmas step_at = step_INIT step_ANTI_DEBUG_1 step_ANTI_DEBUG_2 step_ANTI_DEBUG_3
  step_SELF_MODIFY step_CHECK_OS step_CHECK_MARKER step_HIDE_PROC step_DOWNLOAD step_EXEC
  step_EXIT_OK step_EXIT_FAIL

lemma state_cases:
  obtains "state ms = ST_INIT" | "state ms = ST_ANTI_DEBUG_1" | "state ms = ST_ANTI_DEBUG_2"
  | "state ms = ST_ANTI_DEBUG_3" | "state ms = ST_SELF_MODIFY" | "state ms = ST_CHECK_OS"
  | "state ms = ST_CHECK_MARKER" | "state ms = ST_HIDE_PROC" | "state ms = ST_DOWNLOAD"
  | "state ms = ST_EXEC" | "state ms = ST_EXIT_OK" | "state ms = ST_EXIT_FAIL"
  | "state ms \<notin> set twelve"
  unfolding twelve_def by auto

lemma step_Inr_rank: "step e ms = Inr ms' \<Longrightarrow> rank (state ms) < rank (state ms')"
  by (cases ms rule: state_cases) (auto simp: step_at step_default rank_def split: if_splits)

lemma step_Inr_twelve:
  "step e ms = Inr ms' \<Longrightarrow> state ms \<in> set twelve \<and> state ms' \<in> set twelve"
  by (cases ms rule: state_cases) (auto simp: step_at step_default twelve_def split: if_splits)

lemma step_Inr_path: "step e ms = Inr ms' \<Longrightarrow> path ms' = path ms @ [state ms]"
  by (cases ms rule: state_cases) (auto simp: step_at step_default)

lemma step_Inl: "step e ms = Inl r \<Longrightarrow> r = (if state ms = ST_EXIT_OK then retval ms else 1)"
  by (cases ms rule: state_cases) (auto simp: step_at step_default twelve_def split: if_splits)

section \<open>The invariant of the dispatcher and its termination\<close>


lemma trace_frames:
  "Enter g \<in> set (trace (snd (ad_ptrace e w))) = (g = F_ad_ptrace \<or> Enter g \<in> set (trace w))"
  "Enter g \<in> set (trace (snd (ad_timing e w))) = (g = F_ad_timing \<or> Enter g \<in> set (trace w))"
  "Enter g \<in> set (trace (snd (ad_proc e w))) = (g = F_ad_proc \<or> Enter g \<in> set (trace w))"
  "Enter g \<in> set (trace (self_modify e w)) = (g = F_self_modify \<or> Enter g \<in> set (trace w))"
  "Enter g \<in> set (trace (snd (check_os e w))) = (g = F_check_os \<or> Enter g \<in> set (trace w))"
  "Enter g \<in> set (trace (snd (check_marker e w))) = (g = F_check_marker \<or> Enter g \<in> set (trace w))"
  by (auto simp: ad_ptrace_eq ad_timing_snd ad_proc_snd self_modify_frame check_os_snd check_marker_snd)

lemma wf_frames:
  "wf_world w \<Longrightarrow> wf_world (snd (ad_ptrace e w))"
  "wf_world w \<Longrightarrow> wf_world (snd (ad_timing e w))"
  "wf_world w \<Longrightarrow> wf_world (snd (ad_proc e w))"
  "wf_world w \<Longrightarrow> wf_world (self_modify e w)"
  "wf_world w \<Longrightarrow> wf_world (snd (check_os e w))"
  "wf_world w \<Longrightarrow> wf_world (snd (check_marker e w))"
  by (simp_all add: ad_ptrace_eq ad_timing_snd ad_proc_snd self_modify_frame check_os_snd check_marker_snd)

lemma sm_flag_frames:
  "sm_flag (snd (ad_ptrace e w)) = sm_flag w"
  "sm_flag (snd (ad_timing e w)) = sm_flag w"
  "sm_flag (snd (ad_proc e w)) = sm_flag w"
  "sm_flag (snd (check_os e w)) = sm_flag w"
  "sm_flag (snd (check_marker e w)) = sm_flag w"
  by (simp_all add: ad_ptrace_eq ad_timing_snd ad_proc_snd check_os_snd check_marker_snd)

lemmas frames = trace_frames wf_frames hide_proc_frame download_frame exec_payload_frame

lemma step_wf: "step e ms = Inr ms' \<Longrightarrow> wf_world (glob ms) \<Longrightarrow> wf_world (glob ms')"
  by (cases ms rule: state_cases) (auto simp: step_at step_default frames)

lemma step_retval:
  "step e ms = Inr ms' \<Longrightarrow> state ms = ST_EXIT_OK \<or> retval ms = 1 \<Longrightarrow>
   state ms' = ST_EXIT_OK \<or> retval ms' = 1"
  by (cases ms rule: state_cases) (auto simp: step_at step_default)

lemma step_trace_download:
  "step e ms = Inr ms' \<Longrightarrow> Enter F_download \<in> set (trace (glob ms')) \<Longrightarrow>
   Enter F_download \<in> set (trace (glob ms)) \<or> state ms = ST_DOWNLOAD"
  by (cases ms rule: state_cases) (auto simp: step_at step_default frames)

lemma step_trace_exec:
  "step e ms = Inr ms' \<Longrightarrow> Enter F_exec_payload \<in> set (trace (glob ms')) \<Longrightarrow>
   Enter F_exec_payload \<in> set (trace (glob ms)) \<or> state ms = ST_EXEC"
  by (cases ms rule: state_cases) (auto simp: step_at step_default frames)

lemma rank_le: "rank s \<le> 10"
  by (simp add: rank_def)

lemma step_dinv:
  assumes "dinv ms" and st: "step e ms = Inr ms'"
  shows "dinv ms'"
proof -
  have r: "rank (state ms) < rank (state ms')" using st by (rule step_Inr_rank)
  have p: "path ms' = path ms @ [state ms]" using st by (rule step_Inr_path)
  have "set (visited ms') \<subseteq> set twelve"
    using step_Inr_twelve[OF st] assms(1) p by (simp add: dinv_def visited_def)
  moreover have "sorted_wrt (\<lambda>a b. rank a < rank b) (visited ms')"
    using assms(1) r p by (auto simp: dinv_def visited_def sorted_wrt_append)
  moreover have "state ms' = ST_EXIT_OK \<or> retval ms' = 1"
    using step_retval[OF st] assms(1) by (simp add: dinv_def)
  moreover have "Enter F_download \<in> set (trace (glob ms')) \<longrightarrow> 9 \<le> rank (state ms')"
  proof
    assume "Enter F_download \<in> set (trace (glob ms'))"
    then have "Enter F_download \<in> set (trace (glob ms)) \<or> state ms = ST_DOWNLOAD"
      by (rule step_trace_download[OF st])
    then have "8 \<le> rank (state ms)" using assms(1) by (auto simp: dinv_def rank_def)
    with r show "9 \<le> rank (state ms')" by simp
  qed
  moreover have "Enter F_exec_payload \<in> set (trace (glob ms')) \<longrightarrow> state ms' = ST_EXIT_OK"
  proof
    assume "Enter F_exec_payload \<in> set (trace (glob ms'))"
    then have "Enter F_exec_payload \<in> set (trace (glob ms)) \<or> state ms = ST_EXEC"
      by (rule step_trace_exec[OF st])
    then have "state ms = ST_EXEC" using assms(1) st by (auto simp: dinv_def step_EXIT_OK)
    with st show "state ms' = ST_EXIT_OK" by (auto simp: step_EXEC)
  qed
  moreover have "wf_world (glob ms')" using step_wf[OF st] assms(1) by (simp add: dinv_def)
  ultimately show ?thesis by (simp add: dinv_def)
qed

lemma dinv_init: "dinv (main_init e)"
  by (simp add: dinv_def main_init_def twelve_def visited_def world0_def wf_world_def)

lemma reach_dinv: "reach e ms \<Longrightarrow> dinv ms"
  by (induction rule: reach.induct) (auto intro: dinv_init step_dinv)

lemma main_loop_Inl: "step e ms = Inl r \<Longrightarrow> main_loop e ms = Some (r, ms)"
  by (subst main_loop.simps) simp

lemma main_loop_Inr: "step e ms = Inr ms' \<Longrightarrow> main_loop e ms = main_loop e ms'"
  by (subst main_loop.simps) simp

lemma reach_main: "reach e ms \<Longrightarrow> main_loop e ms = main e"
  by (induction rule: reach.induct) (simp_all add: main_def main_loop_Inr)

lemma main_loop_total:
  "\<exists>r msf. main_loop e ms = Some (r, msf) \<and> step e msf = Inl r \<and> (reach e ms \<longrightarrow> reach e msf)"
proof (induction "10 - rank (state ms)" arbitrary: ms rule: less_induct)
  case less
  show ?case
  proof (cases "step e ms")
    case (Inl r)
    then show ?thesis using main_loop_Inl[OF Inl] by blast
  next
    case (Inr ms')
    have "rank (state ms) < rank (state ms')" using Inr by (rule step_Inr_rank)
    moreover have "rank (state ms') \<le> 10" by (rule rank_le)
    ultimately have "10 - rank (state ms') < 10 - rank (state ms)" by simp
    from less[OF this] obtain r msf where
      "main_loop e ms' = Some (r, msf)" "step e msf = Inl r" "reach e ms' \<longrightarrow> reach e msf"
      by blast
    then show ?thesis using main_loop_Inr[OF Inr] reach_step[OF _ Inr] by auto
  qed
qed

lemma reach_steps: "reach e ms \<Longrightarrow> reach e (steps e n ms)"
  by (induction n arbitrary: ms) (auto split: sum.splits intro: reach_step)

section \<open>Runs that end in an abort\<close>


lemma abort_run:
  assumes "reach e ms" and "step e ms = Inr ms'" and "state ms' = ST_EXIT_FAIL"
  shows "main e = Some (1, ms')"
proof -
  have "main e = main_loop e ms" using assms(1) by (simp add: reach_main)
  also have "\<dots> = main_loop e ms'" using assms(2) by (rule main_loop_Inr)
  also have "\<dots> = Some (1, ms')" using assms(3) by (simp add: main_loop_Inl step_EXIT_FAIL)
  finally show ?thesis .
qed

lemma rank_state_simps:
  "state ms = ST_ANTI_DEBUG_1 \<Longrightarrow> rank (state ms) = 1"
  "state ms = ST_ANTI_DEBUG_2 \<Longrightarrow> rank (state ms) = 2"
  "state ms = ST_ANTI_DEBUG_3 \<Longrightarrow> rank (state ms) = 3"
  "state ms = ST_CHECK_OS \<Longrightarrow> rank (state ms) = 5"
  "state ms = ST_CHECK_MARKER \<Longrightarrow> rank (state ms) = 6"
  "state ms = ST_DOWNLOAD \<Longrightarrow> rank (state ms) = 8"
  "state ms = ST_EXEC \<Longrightarrow> rank (state ms) = 9"
  by (simp_all add: rank_def)

lemma no_fetch_before:
  assumes "reach e ms" and "rank (state ms) < 9"
  shows "Enter F_download \<notin> set (trace (glob ms))"
    and "Enter F_exec_payload \<notin> set (trace (glob ms))"
  using reach_dinv[OF assms(1)] assms(2) by (auto simp: dinv_def rank_def)

section \<open>The result of each function\<close>


lemma cstr_nul: "cstr (s @ [0]) = cstr s"
proof (cases "\<forall>b \<in> set s. b \<noteq> 0")
  case True
  then show ?thesis by (simp add: cstr_def takeWhile_append2 takeWhile_eq_all_conv[THEN iffD2])
next
  case False
  then show ?thesis by (auto simp: cstr_def takeWhile_append1)
qed

lemma ad_ptrace_fst: "fst (ad_ptrace e w) = (if ptrace_traceme e = - 1 then 1 else 0)"
  by (simp add: ad_ptrace_eq)

lemma ad_timing_fst:
  "fst (ad_timing e w) =
     (if (fst (tv2 e) - fst (tv1 e)) * 1000000 + (snd (tv2 e) - snd (tv1 e)) > 500000
      then 1 else 0)"
  by (simp add: ad_timing_def Let_def split_def)

lemma ad_proc_nomem:
  "\<not> malloc_ok e (mallocs w) \<or> \<not> malloc_ok e (Suc (mallocs w)) \<Longrightarrow> fst (ad_proc e w) = 0"
  by (auto simp: ad_proc_def Let_def split_def ds_fst_None)

lemma ad_proc_nofile: "fopen_r e = (\<lambda>p. None) \<Longrightarrow> fst (ad_proc e w) = 0"
  by (simp add: ad_proc_def Let_def split_def)

lemma check_os_fst:
  "wf_world w \<Longrightarrow>
   fst (check_os e w) =
     (if uname_r e \<noteq> None \<and> malloc_ok e (mallocs w)
         \<and> cstr (the (uname_r e)) = cstr (plain S_LINUX) then 1 else 0)"
  using ds_plain[of "enter F_check_os w" e S_LINUX] ds_fst_None[of e S_LINUX "enter F_check_os w"]
  by (auto simp: check_os_def Let_def split_def cstr_nul split: option.splits)

lemma check_marker_fst:
  "wf_world w \<Longrightarrow>
   fst (check_marker e w) =
     (if malloc_ok e (mallocs w) \<and> stat_r e (cstr (plain S_MARKER)) = 0 then 1 else 0)"
  using ds_plain[of "enter F_check_marker w" e S_MARKER]
    ds_fst_None[of e S_MARKER "enter F_check_marker w"]
  by (auto simp: check_marker_def Let_def split_def cstr_nul)

lemma fork_result_neq [simp]: "(r \<noteq> Fork_failed) = (r = Fork_parent)"
  by (cases r) simp_all

lemma download_fst:
  "(fst (download e w) = 0) =
     (malloc_ok e (mallocs w) \<and> malloc_ok e (Suc (mallocs w))
      \<and> malloc_ok e (Suc (Suc (mallocs w))) \<and> malloc_ok e (Suc (Suc (Suc (mallocs w))))
      \<and> malloc_ok e (Suc (Suc (Suc (Suc (mallocs w)))))
      \<and> fork_r e (forks w) = Fork_parent \<and> waitpid_r e (forks w) = Exited 0)"
  by (auto simp: download_def sys_fork_def sys_waitpid_def Let_def split_def ds_fst_None)

lemma exec_payload_fst:
  "(fst (exec_payload e w) = 0) =
     (malloc_ok e (mallocs w) \<and> malloc_ok e (Suc (mallocs w))
      \<and> malloc_ok e (Suc (Suc (mallocs w)))
      \<and> fork_r e (forks w) = Fork_parent \<and> waitpid_r e (forks w) = Exited 0)"
  by (auto simp: exec_payload_def sys_fork_def sys_waitpid_def Let_def split_def ds_fst_None)

lemma mallocs_frames:
  "mallocs (snd (ad_ptrace e w)) = mallocs w"
  "mallocs (snd (ad_timing e w)) = mallocs w"
  "mallocs (snd (ad_proc e w)) = Suc (Suc (mallocs w))"
  "mallocs (self_modify e w) = mallocs w"
  "uname_r e \<noteq> None \<Longrightarrow> mallocs (snd (check_os e w)) = Suc (mallocs w)"
  "mallocs (snd (check_marker e w)) = Suc (mallocs w)"
  "mallocs (hide_proc e w) = Suc (mallocs w)"
  "mallocs (snd (download e w)) = mallocs w + 5"
  by (simp_all add: ad_ptrace_eq ad_timing_snd ad_proc_snd self_modify_frame check_os_snd
      check_marker_snd hide_proc_def download_def sys_fork_def sys_waitpid_def Let_def split_def)

lemma forks_frames:
  "forks (snd (ad_ptrace e w)) = forks w"
  "forks (snd (ad_timing e w)) = forks w"
  "forks (snd (ad_proc e w)) = forks w"
  "forks (self_modify e w) = forks w"
  "forks (snd (check_os e w)) = forks w"
  "forks (snd (check_marker e w)) = forks w"
  "forks (hide_proc e w) = forks w"
  by (simp_all add: ad_ptrace_eq ad_timing_snd ad_proc_snd self_modify_frame check_os_snd
      check_marker_snd hide_proc_def Let_def split_def)

lemma download_forks: "fst (download e w) = 0 \<Longrightarrow> forks (snd (download e w)) = Suc (forks w)"
  by (auto simp: download_def sys_fork_def sys_waitpid_def Let_def split_def split: if_splits)

lemma steps_snoc:
  "steps e (Suc n) ms = (case step e (steps e n ms) of Inl r \<Rightarrow> steps e n ms | Inr ms' \<Rightarrow> ms')"
proof (induction n arbitrary: ms)
  case 0
  show ?case by (simp split: sum.splits)
next
  case (Suc n)
  show ?case
  proof (cases "step e ms")
    case (Inl r)
    have "steps e k ms = ms" for k using Inl by (cases k) simp_all
    then show ?thesis using Inl by simp
  next
    case (Inr ms')
    have a: "steps e (Suc n) ms = steps e n ms'" using Inr by simp
    have b: "steps e (Suc (Suc n)) ms = steps e (Suc n) ms'" using Inr by simp
    show ?thesis unfolding a b by (rule Suc)
  qed
qed

section \<open>Evaluating a run in a given environment\<close>


lemma steps_numeral:
  "steps e (numeral k) ms =
     (case step e ms of Inl r \<Rightarrow> ms | Inr ms' \<Rightarrow> steps e (pred_numeral k) ms')"
  by (simp add: numeral_eq_Suc)

lemma main_loop_steps: "main_loop e (steps e n ms) = main_loop e ms"
  by (induction n arbitrary: ms) (auto split: sum.splits simp: main_loop_Inr)

lemma main_steps: "main e = main_loop e (steps e n (main_init e))"
  by (simp add: main_def main_loop_steps)

lemma env_ok_simps:
  "getpid env_ok = 4242" "malloc_ok env_ok n" "ptrace_traceme env_ok = 0"
  "tv1 env_ok = (100, 0)" "tv2 env_ok = (100, 40)" "fopen_r env_ok = (\<lambda>p. None)"
  "mprotect_r env_ok n = 0" "uname_r env_ok = Some (plain S_LINUX)" "stat_r env_ok p = - 1"
  "openat_r env_ok p = - 1" "fork_r env_ok n = Fork_parent" "waitpid_r env_ok n = Exited 0"
  by (simp_all add: env_ok_def)

lemma env_nomem_simps:
  "getpid env_nomem = 4242" "malloc_ok env_nomem n = (n \<noteq> 0)" "ptrace_traceme env_nomem = 0"
  "tv1 env_nomem = (100, 0)" "tv2 env_nomem = (100, 40)" "fopen_r env_nomem = (\<lambda>p. None)"
  "mprotect_r env_nomem n = 0" "uname_r env_nomem = Some (plain S_LINUX)" "stat_r env_nomem p = - 1"
  "openat_r env_nomem p = - 1" "fork_r env_nomem n = Fork_parent" "waitpid_r env_nomem n = Exited 0"
  by (simp_all add: env_nomem_def env_ok_def)

lemmas run_simps = steps_numeral step_at main_init_def ad_ptrace_fst ad_timing_fst ad_proc_nofile
  check_os_fst check_marker_fst download_fst exec_payload_fst wf_frames wf_world0 hide_proc_frame download_frame
  mallocs_frames forks_frames download_forks sm_check_def self_modify_frame

lemma world0_simps:
  "mallocs world0 = 0" "forks world0 = 0" "sm_flag world0 = 0" "trace world0 = []"
  "key_ready world0 = 0" "mprotects world0 = 0" "faulted world0 = False"
  by (simp_all add: world0_def)

section \<open>Further lemmas for the claims\<close>

lemma env_traced_simps:
  "ptrace_traceme env_traced = - 1"
  by (simp_all add: env_traced_def env_ok_def)

lemma env_marked_simps:
  "malloc_ok env_marked n" "ptrace_traceme env_marked = 0"
  "tv1 env_marked = (100, 0)" "tv2 env_marked = (100, 40)" "fopen_r env_marked = (\<lambda>p. None)"
  "mprotect_r env_marked n = 0" "uname_r env_marked = Some (plain S_LINUX)"
  "stat_r env_marked p = 0"
  by (simp_all add: env_marked_def env_ok_def)

lemma env_nofetch_simps:
  "malloc_ok env_nofetch n = (n \<noteq> 5)" "ptrace_traceme env_nofetch = 0"
  "tv1 env_nofetch = (100, 0)" "tv2 env_nofetch = (100, 40)" "fopen_r env_nofetch = (\<lambda>p. None)"
  "mprotect_r env_nofetch n = 0" "uname_r env_nofetch = Some (plain S_LINUX)"
  "stat_r env_nofetch p = - 1"
  by (simp_all add: env_nofetch_def env_ok_def)

lemma sorted_rank_distinct: "sorted_wrt (\<lambda>a b. rank a < rank b) xs \<Longrightarrow> distinct xs"
  by (induction xs) auto

lemma sm_flag_self_modify:
  "sm_flag (self_modify e w) = (if mprotect_r e (mprotects w) = 0 then 1 else sm_flag w)"
  by (simp add: self_modify_frame)

lemma mprotects_self_modify:
  "mprotects (self_modify e w) =
     (if mprotect_r e (mprotects w) = 0 then Suc (Suc (mprotects w)) else Suc (mprotects w))"
  by (simp add: self_modify_def sys_mprotect_def Let_def split_def)

lemma self_modify_funpow_set:
  "sm_flag w = 1 \<Longrightarrow> sm_flag ((self_modify e ^^ N) w) = 1"
  by (induction N) (simp_all add: sm_flag_self_modify)

lemma self_modify_funpow_first:
  assumes "0 < N" and "mprotect_r e (mprotects w) = 0"
  shows "sm_flag ((self_modify e ^^ N) w) = sm_flag (self_modify e w)"
proof -
  from assms(1) obtain M where N: "N = Suc M" by (cases N) simp_all
  have one: "sm_flag (self_modify e w) = 1" using assms(2) by (simp add: sm_flag_self_modify)
  have "(self_modify e ^^ N) w = (self_modify e ^^ M) (self_modify e w)"
    unfolding N by (simp add: funpow_swap1)
  then show ?thesis using self_modify_funpow_set[OF one, where e = e and N = M] one by simp
qed

lemma self_modify_funpow_refused:
  "(\<forall>n. mprotect_r e n \<noteq> 0) \<Longrightarrow> sm_flag ((self_modify e ^^ N) w) = sm_flag w"
  by (induction N) (simp_all add: sm_flag_self_modify)

lemma self_modify_funpow_same:
  assumes "0 < N" and "\<forall>n. mprotect_r e n = mprotect_r e 0"
  shows "sm_flag ((self_modify e ^^ N) w) = sm_flag (self_modify e w)"
proof (cases "mprotect_r e 0 = 0")
  case True
  with assms(2) have "mprotect_r e (mprotects w) = 0" by metis
  with assms(1) show ?thesis by (rule self_modify_funpow_first)
next
  case False
  with assms(2) have a: "\<forall>n. mprotect_r e n \<noteq> 0" by metis
  then show ?thesis using self_modify_funpow_refused[OF a] by (simp add: sm_flag_self_modify)
qed

lemma env_flaky_simps: "mprotect_r env_flaky n = (if n = 0 then - 1 else 0)"
  by (simp add: env_flaky_def)

lemma env_fail_simps:
  "malloc_ok (env_fail k) n = (n \<noteq> k)" "ptrace_traceme (env_fail k) = 0"
  "tv1 (env_fail k) = (100, 0)" "tv2 (env_fail k) = (100, 40)"
  "fopen_r (env_fail k) = (\<lambda>p. None)" "mprotect_r (env_fail k) n = 0"
  "uname_r (env_fail k) = Some (plain S_LINUX)" "stat_r (env_fail k) p = - 1"
  "openat_r (env_fail k) p = - 1" "fork_r (env_fail k) n = Fork_parent"
  "waitpid_r (env_fail k) n = Exited 0"
  by (simp_all add: env_fail_def env_ok_def)

text \<open>No function called by the dispatcher reads outside the string table.\<close>

lemma faulted_frames:
  "faulted (snd (ad_ptrace e w)) = faulted w"
  "faulted (snd (ad_timing e w)) = faulted w"
  "faulted (snd (ad_proc e w)) = faulted w"
  "faulted (snd (check_os e w)) = faulted w"
  "faulted (snd (check_marker e w)) = faulted w"
  "faulted (hide_proc e w) = faulted w"
  by (simp_all add: ad_ptrace_eq ad_timing_snd ad_proc_snd check_os_snd check_marker_snd
      hide_proc_def Let_def split_def ds_faulted length_st)

lemma faulted_download: "faulted (snd (download e w)) = faulted w"
  by (simp add: download_def sys_fork_def sys_waitpid_def Let_def split_def ds_faulted length_st)

lemma faulted_exec_payload: "faulted (snd (exec_payload e w)) = faulted w"
  by (simp add: exec_payload_def sys_fork_def sys_waitpid_def Let_def split_def ds_faulted
      length_st)

lemma step_faulted: "step e ms = Inr ms' \<Longrightarrow> faulted (glob ms') = faulted (glob ms)"
  by (cases ms rule: state_cases)
    (auto simp: step_at step_default faulted_frames faulted_download faulted_exec_payload
      self_modify_frame)

lemma reach_no_fault: "reach e ms \<Longrightarrow> \<not> faulted (glob ms)"
  by (induction rule: reach.induct) (simp_all add: main_init_def world0_def step_faulted)

lemma directory_in_table: "list_all in_table directory"
  by (simp add: directory_def in_table_def length_st)

text \<open>The log has a write only from \<^verbatim>\<open>_hide_proc\<close>, and not when its decode fails.\<close>

lemma write_frames:
  "Sys_write \<in> set (trace (snd (ad_ptrace e w))) = (Sys_write \<in> set (trace w))"
  "Sys_write \<in> set (trace (snd (ad_timing e w))) = (Sys_write \<in> set (trace w))"
  "Sys_write \<in> set (trace (snd (ad_proc e w))) = (Sys_write \<in> set (trace w))"
  "Sys_write \<in> set (trace (self_modify e w)) = (Sys_write \<in> set (trace w))"
  "Sys_write \<in> set (trace (snd (check_os e w))) = (Sys_write \<in> set (trace w))"
  "Sys_write \<in> set (trace (snd (check_marker e w))) = (Sys_write \<in> set (trace w))"
  by (auto simp: ad_ptrace_eq ad_timing_snd ad_proc_snd self_modify_frame check_os_snd
      check_marker_snd)

lemma step_write:
  "step e ms = Inr ms' \<Longrightarrow> rank (state ms) < 7 \<Longrightarrow>
   Sys_write \<in> set (trace (glob ms')) \<Longrightarrow> Sys_write \<in> set (trace (glob ms))"
  by (cases ms rule: state_cases) (auto simp: step_at step_default write_frames rank_def)

lemma reach_no_write:
  "reach e ms \<Longrightarrow> rank (state ms) \<le> 7 \<Longrightarrow> Sys_write \<notin> set (trace (glob ms))"
proof (induction rule: reach.induct)
  case reach_init
  show ?case by (simp add: main_init_def world0_def)
next
  case (reach_step ms ms')
  have "rank (state ms) < rank (state ms')" using reach_step(2) by (rule step_Inr_rank)
  with reach_step(4) have r: "rank (state ms) < 7" by simp
  then have "Sys_write \<notin> set (trace (glob ms))" using reach_step(3) by simp
  then show ?case using step_write[OF reach_step(2) r] by blast
qed

lemma hide_proc_skip:
  "\<not> malloc_ok e (mallocs w) \<Longrightarrow> trace (hide_proc e w) = trace w @ [Enter F_hide_proc]"
  by (simp add: hide_proc_def Let_def split_def ds_fst_None)

text \<open>With the decode and the \<^verbatim>\<open>openat\<close> succeeding, the write is made.\<close>

lemma hide_proc_write:
  "wf_world w \<Longrightarrow> malloc_ok e (mallocs w) \<Longrightarrow> 0 \<le> openat_r e (cstr (plain S_PROC_MEM)) \<Longrightarrow>
   trace (hide_proc e w) = trace w @ [Enter F_hide_proc, Sys_write]"
  using ds_plain[of "enter F_hide_proc w" e S_PROC_MEM]
  by (simp add: hide_proc_def Let_def split_def ds_fst_None cstr_nul)

lemma step_sm_flag:
  "step e ms = Inr ms' \<Longrightarrow> sm_flag (glob ms) = 1 \<Longrightarrow> sm_flag (glob ms') = 1"
  by (cases ms rule: state_cases)
    (auto simp: step_at step_default sm_flag_frames hide_proc_frame download_frame
      exec_payload_frame sm_flag_self_modify)

lemma reach_sm_flag: "reach e ms \<Longrightarrow> sm_flag (glob ms) = 0 \<or> sm_flag (glob ms) = 1"
proof (induction rule: reach.induct)
  case reach_init
  show ?case by (simp add: main_init_def world0_simps)
next
  case (reach_step ms ms')
  then show ?case
    by (cases ms rule: state_cases)
      (auto simp: step_at step_default sm_flag_frames hide_proc_frame download_frame
        exec_payload_frame sm_flag_self_modify split: if_splits)
qed

lemma download_run:
  assumes "reach e ms" and "state ms = ST_DOWNLOAD"
  shows "(fst (download e (glob ms)) \<noteq> 0 \<longrightarrow>
            (\<exists>msf. main e = Some (1, msf) \<and> state msf = ST_EXIT_FAIL
               \<and> Enter F_exec_payload \<notin> set (trace (glob msf))))
       \<and> (fst (download e (glob ms)) = 0 \<longrightarrow>
            (\<exists>r msf. main e = Some (r, msf) \<and> state msf = ST_EXIT_OK
               \<and> Enter F_exec_payload \<in> set (trace (glob msf))
               \<and> (r = 0) = (fst (exec_payload e (snd (download e (glob ms)))) = 0)
               \<and> (r = 0 \<or> r = 1)))"
proof (intro conjI impI)
  from assms(2) have "rank (state ms) < 9" by (simp add: rank_def)
  note nf = no_fetch_before[OF assms(1) this]
  have rv: "retval ms = 1" using reach_dinv[OF assms(1)] assms(2) by (simp add: dinv_def)
  {
    assume d: "fst (download e (glob ms)) \<noteq> 0"
    let ?ms' = "ms\<lparr>state := ST_EXIT_FAIL, glob := snd (download e (glob ms)),
                    path := path ms @ [ST_DOWNLOAD]\<rparr>"
    have st: "step e ms = Inr ?ms'" using assms(2) d by (simp add: step_DOWNLOAD)
    have "main e = Some (1, ?ms')" using assms(1) st by (rule abort_run) simp
    moreover have "Enter F_exec_payload \<notin> set (trace (glob ?ms'))"
      using nf by (simp add: download_frame)
    ultimately show "\<exists>msf. main e = Some (1, msf) \<and> state msf = ST_EXIT_FAIL
               \<and> Enter F_exec_payload \<notin> set (trace (glob msf))" by auto
  }
  {
    assume d: "fst (download e (glob ms)) = 0"
    let ?w1 = "snd (download e (glob ms))"
    let ?m1 = "ms\<lparr>state := ST_EXEC, glob := ?w1, path := path ms @ [ST_DOWNLOAD]\<rparr>"
    let ?r = "if fst (exec_payload e ?w1) = 0 then 0 else 1 :: int"
    let ?m2 = "?m1\<lparr>state := ST_EXIT_OK, retval := ?r, glob := snd (exec_payload e ?w1),
                    path := path ?m1 @ [ST_EXEC]\<rparr>"
    have s1: "step e ms = Inr ?m1" using assms(2) d by (simp add: step_DOWNLOAD)
    have s2: "step e ?m1 = Inr ?m2" using rv by (simp add: step_EXEC)
    have s3: "step e ?m2 = Inl ?r" by (simp add: step_EXIT_OK)
    have "main e = main_loop e ms" using assms(1) by (simp add: reach_main)
    also have "\<dots> = main_loop e ?m1" using s1 by (rule main_loop_Inr)
    also have "\<dots> = main_loop e ?m2" using s2 by (rule main_loop_Inr)
    also have "\<dots> = Some (?r, ?m2)" using s3 by (rule main_loop_Inl)
    finally have "main e = Some (?r, ?m2)" .
    moreover have "state ?m2 = ST_EXIT_OK" by simp
    moreover have "Enter F_exec_payload \<in> set (trace (glob ?m2))"
      by (simp add: exec_payload_frame)
    moreover have "(?r = 0) = (fst (exec_payload e ?w1) = 0)" by simp
    moreover have "?r = 0 \<or> ?r = 1" by simp
    ultimately show "\<exists>r msf. main e = Some (r, msf) \<and> state msf = ST_EXIT_OK
               \<and> Enter F_exec_payload \<in> set (trace (glob msf))
               \<and> (r = 0) = (fst (exec_payload e (snd (download e (glob ms)))) = 0)
               \<and> (r = 0 \<or> r = 1)" by blast
  }
qed

section \<open>The claims on the cipher\<close>

text \<open>
  C2. For every non-empty key \<open>k\<close> and every byte sequence \<open>d\<close> (of any length, the
  empty one included), \<^verbatim>\<open>_rc4i\<close> succeeds on \<open>k\<close> and leaves a table of 256 entries,
  so that every index masked with 0xFF is inside it; and \<^verbatim>\<open>_rc4x\<close> applied twice,
  each time with a state freshly initialised from \<open>k\<close>, gives \<open>d\<close> back.
\<close>

theorem rc4_self_inverse:
  "k \<noteq> [] \<Longrightarrow>
   \<exists>c1 c2. rc4i k = Some c1 \<and> rc4i k = Some c2 \<and> length (S c1) = 256
      \<and> snd (rc4x c2 (snd (rc4x c1 d))) = d"
proof -
  assume "k \<noteq> []"
  then obtain c where c: "rc4i k = Some c" "perm256 (S c)" using rc4i_perm by blast
  then have "length (S c) = 256" by (simp add: perm256_length)
  moreover have "snd (rc4x c (snd (rc4x c d))) = d" by (rule rc4x_twice)
  ultimately show ?thesis using c by blast
qed

text \<open>The same at the key "key" and three bytes of data.\<close>

theorem rc4_self_inverse_witness:
  "[0x6b, 0x65, 0x79] \<noteq> ([] :: byte list) \<and>
   (\<exists>c1 c2. rc4i [0x6b, 0x65, 0x79] = Some c1 \<and> rc4i [0x6b, 0x65, 0x79] = Some c2
      \<and> length (S c1) = 256
      \<and> snd (rc4x c2 (snd (rc4x c1 [0x01, 0x02, 0xff]))) = [0x01, 0x02, 0xff])"
  using rc4_self_inverse [of "[0x6b, 0x65, 0x79]" "[0x01, 0x02, 0xff]"] by simp

text \<open>
  C6. After \<^verbatim>\<open>_rc4i\<close> with any non-empty key the table \<open>S\<close> is a permutation of
  0..255, and \<^verbatim>\<open>_rc4x\<close> on any data keeps it one: each round of \<^verbatim>\<open>_rc4x\<close> only
  exchanges the entries at two indices below 256.
\<close>

theorem rc4_table_permutation:
  "(k \<noteq> [] \<longrightarrow> (\<exists>c. rc4i k = Some c \<and> perm256 (S c)))
   \<and> (perm256 (S c) \<longrightarrow>
        perm256 (S (fst (rc4x c d)))
        \<and> (\<exists>a b. a < 256 \<and> b < 256
               \<and> S (fst (rc4x_round c)) = (S c)[a := S c ! b, b := S c ! a]))"
proof (intro conjI impI)
  assume "k \<noteq> []"
  then show "\<exists>c. rc4i k = Some c \<and> perm256 (S c)" by (rule rc4i_perm)
next
  assume "perm256 (S c)"
  then show "perm256 (S (fst (rc4x c d)))" by (rule rc4x_perm)
next
  let ?a = "nat ((i c + 1) AND 0xFF)"
  let ?b = "nat ((j c + uint (S c ! ?a)) AND 0xFF)"
  have "?a < 256" "?b < 256" by (rule int_and_255)+
  moreover have "S (fst (rc4x_round c)) = (S c)[?a := S c ! ?b, ?b := S c ! ?a]"
    by (simp add: rc4x_round_def Let_def)
  ultimately show "\<exists>a b. a < 256 \<and> b < 256
      \<and> S (fst (rc4x_round c)) = (S c)[a := S c ! b, b := S c ! a]" by blast
qed

text \<open>The same at the key "key", and at the identity table with two bytes of data.\<close>

theorem rc4_table_permutation_witness:
  "[0x6b, 0x65, 0x79] \<noteq> ([] :: byte list) \<and> perm256 (S rc4_identity)
   \<and> (\<exists>c. rc4i [0x6b, 0x65, 0x79] = Some c \<and> perm256 (S c))
   \<and> perm256 (S (fst (rc4x rc4_identity [0x01, 0x02])))"
proof -
  have p: "perm256 (S rc4_identity)" by (simp add: rc4_identity_def perm256_def)
  show ?thesis
    using p rc4_table_permutation [of "[0x6b, 0x65, 0x79]" rc4_identity "[0x01, 0x02]"]
    by blast
qed

section \<open>The claims on the key and the flag\<close>

text \<open>
  C7. Key recovery is idempotent: \<open>N \<ge> 1\<close> calls of \<^verbatim>\<open>_recover_key\<close> leave the
  globals as one call does, a call after the first changes nothing, and the key left in
  \<^verbatim>\<open>_rk\<close> (from a state in which \<^verbatim>\<open>_key_ready\<close> is 0, as at the start of the
  process) is each byte of \<^verbatim>\<open>_ks\<close> XOR-ed with 0xa5.
\<close>

theorem recover_key_idempotent:
  "0 < N \<Longrightarrow>
   (recover_key e ^^ N) w = recover_key e w
   \<and> recover_key e (recover_key e w) = recover_key e w
   \<and> (key_ready w = 0 \<and> length (rk w) = KS_LEN \<longrightarrow>
        rk ((recover_key e ^^ N) w) = map (\<lambda>b. b XOR KS_MASK) ks)
   \<and> rk ((recover_key e ^^ N) world0) = map (\<lambda>b. b XOR KS_MASK) ks"
proof -
  assume N: "0 < N"
  have "rk (recover_key e world0) = map (\<lambda>b. b XOR KS_MASK) ks"
    by (simp add: recover_key_fresh world0_def key_def)
  then show ?thesis
    using N by (simp add: recover_key_funpow recover_key_twice recover_key_fresh key_def)
qed

text \<open>The same for three calls from the initial globals.\<close>

theorem recover_key_idempotent_witness:
  "(0::nat) < 3
   \<and> (recover_key env_ok ^^ 3) world0 = recover_key env_ok world0
   \<and> rk ((recover_key env_ok ^^ 3) world0) = map (\<lambda>b. b XOR KS_MASK) ks"
proof -
  have n: "(0::nat) < 3" by simp
  show ?thesis using n recover_key_idempotent [OF n, of env_ok world0] by blast
qed

text \<open>
  C8, as stated, fails: repeated calls need not have the effect of one call, because each
  call of \<^verbatim>\<open>_self_modify\<close> calls \<^verbatim>\<open>mprotect\<close> anew. In the environment
  \<open>env_flaky\<close> the first \<^verbatim>\<open>mprotect\<close> is refused and the next is granted: one call
  leaves the flag at 0, two calls leave it at 1.
\<close>

theorem sm_flag_repeat_counterexample:
  "sm_flag (self_modify env_flaky world0) = 0
   \<and> sm_flag (self_modify env_flaky (self_modify env_flaky world0)) = 1"
  by (simp add: sm_flag_self_modify mprotects_self_modify env_flaky_simps world0_simps)

text \<open>
  C8, amended. The flag \<^verbatim>\<open>_sm_flag\<close> starts at 0; \<^verbatim>\<open>_sm_check\<close> returns its value;
  \<^verbatim>\<open>_self_modify\<close> sets it to 1 when its \<^verbatim>\<open>mprotect\<close> returns 0 and leaves it as it
  is otherwise. The flag is monotonic: once 1 it stays 1 through any number of calls of
  \<^verbatim>\<open>_self_modify\<close>, whatever \<^verbatim>\<open>mprotect\<close> returns, and through every pass of the
  dispatcher; in every state of a run it is 0 or 1. \<open>N \<ge> 1\<close> calls leave the flag as
  one call does when the \<^verbatim>\<open>mprotect\<close> of the first call returns 0, and when every
  call of \<^verbatim>\<open>mprotect\<close> returns the same result.
\<close>

theorem sm_flag_monotonic:
  "sm_flag world0 = 0
   \<and> sm_check w = sm_flag w
   \<and> (mprotect_r e (mprotects w) = 0 \<longrightarrow> sm_flag (self_modify e w) = 1)
   \<and> (mprotect_r e (mprotects w) \<noteq> 0 \<longrightarrow> sm_flag (self_modify e w) = sm_flag w)
   \<and> (sm_flag w = 1 \<longrightarrow> sm_flag ((self_modify e ^^ N) w) = 1)
   \<and> (0 < N \<and> mprotect_r e (mprotects w) = 0 \<longrightarrow>
        sm_flag ((self_modify e ^^ N) w) = sm_flag (self_modify e w))
   \<and> (0 < N \<and> (\<forall>n. mprotect_r e n = mprotect_r e 0) \<longrightarrow>
        sm_flag ((self_modify e ^^ N) w) = sm_flag (self_modify e w))
   \<and> (step e ms = Inr ms' \<and> sm_flag (glob ms) = 1 \<longrightarrow> sm_flag (glob ms') = 1)
   \<and> (reach e ms \<longrightarrow> sm_flag (glob ms) = 0 \<or> sm_flag (glob ms) = 1)"
proof (intro conjI impI)
  show "sm_flag world0 = 0" by (simp add: world0_simps)
  show "sm_check w = sm_flag w" by (simp add: sm_check_def)
  show "sm_flag (self_modify e w) = 1" if "mprotect_r e (mprotects w) = 0"
    using that by (simp add: sm_flag_self_modify)
  show "sm_flag (self_modify e w) = sm_flag w" if "mprotect_r e (mprotects w) \<noteq> 0"
    using that by (simp add: sm_flag_self_modify)
  show "sm_flag ((self_modify e ^^ N) w) = 1" if "sm_flag w = 1"
    using that by (rule self_modify_funpow_set)
  show "sm_flag ((self_modify e ^^ N) w) = sm_flag (self_modify e w)"
    if "0 < N \<and> mprotect_r e (mprotects w) = 0"
    using that self_modify_funpow_first[of N e w] by simp
  show "sm_flag ((self_modify e ^^ N) w) = sm_flag (self_modify e w)"
    if "0 < N \<and> (\<forall>n. mprotect_r e n = mprotect_r e 0)"
    using that self_modify_funpow_same[of N e w] by simp
  show "sm_flag (glob ms') = 1" if "step e ms = Inr ms' \<and> sm_flag (glob ms) = 1"
    using that step_sm_flag[of e ms ms'] by simp
  show "sm_flag (glob ms) = 0 \<or> sm_flag (glob ms) = 1" if "reach e ms"
    using that by (rule reach_sm_flag)
qed

text \<open>
  The same in the environment \<open>env_ok\<close>, where every \<^verbatim>\<open>mprotect\<close> succeeds, for two
  calls from the initial globals and for the first pass of the run.
\<close>

theorem sm_flag_monotonic_witness:
  "mprotect_r env_ok (mprotects world0) = 0 \<and> (0::nat) < 2
   \<and> (\<forall>n. mprotect_r env_ok n = mprotect_r env_ok 0)
   \<and> sm_flag (self_modify env_ok world0) = 1
   \<and> reach env_ok (main_init env_ok)
   \<and> step env_ok (main_init env_ok) = Inr (steps env_ok 1 (main_init env_ok))
   \<and> sm_flag world0 = 0
   \<and> sm_flag ((self_modify env_ok ^^ 2) world0) = sm_flag (self_modify env_ok world0)
   \<and> sm_flag ((self_modify env_ok ^^ 2) (self_modify env_ok world0)) = 1
   \<and> (sm_flag (glob (main_init env_ok)) = 0 \<or> sm_flag (glob (main_init env_ok)) = 1)"
proof -
  have a: "mprotect_r env_ok (mprotects world0) = 0" by (simp add: env_ok_simps)
  have b: "(0::nat) < 2" by simp
  have c: "\<forall>n. mprotect_r env_ok n = mprotect_r env_ok 0" by (simp add: env_ok_simps)
  have r: "reach env_ok (main_init env_ok)" by (rule reach_init)
  have s: "step env_ok (main_init env_ok) = Inr (steps env_ok 1 (main_init env_ok))"
    by (simp add: step_INIT main_init_def)
  show ?thesis
    using a b c r s
      sm_flag_monotonic [of world0 env_ok 2 "main_init env_ok" "steps env_ok 1 (main_init env_ok)"]
      sm_flag_monotonic [of "self_modify env_ok world0" env_ok 2 "main_init env_ok"
        "steps env_ok 1 (main_init env_ok)"]
    by simp
qed

section \<open>The claims on the dispatcher\<close>

text \<open>
  C9. The decoy edges are never taken: for every 32-bit \<open>x\<close>, with wrap-around
  arithmetic, \<^verbatim>\<open>_opaque_true(x)\<close> is 1 and \<^verbatim>\<open>_opaque_false(x)\<close> is 0, so that no
  pass of the dispatcher goes from \<^verbatim>\<open>ST_INIT\<close> to \<^verbatim>\<open>ST_EXIT_FAIL\<close> or from
  \<^verbatim>\<open>ST_CHECK_OS\<close> back to \<^verbatim>\<open>ST_INIT\<close>, whatever the state of the process.
\<close>

theorem decoy_edges_dead:
  "opaque_true x = 1 \<and> opaque_false x = 0
   \<and> (step e ms = Inr ms' \<longrightarrow>
        \<not> (state ms = ST_INIT \<and> state ms' = ST_EXIT_FAIL)
        \<and> \<not> (state ms = ST_CHECK_OS \<and> state ms' = ST_INIT))"
  by (auto simp: opaque_true_1 opaque_false_0 step_INIT step_CHECK_OS split: if_splits)

text \<open>The same at INT_MAX, where \<open>x + 1\<close> wraps, and at the first pass of a run.\<close>

theorem decoy_edges_dead_witness:
  "step env_ok (main_init env_ok) = Inr (steps env_ok 1 (main_init env_ok))
   \<and> opaque_true 0x7fffffff = 1 \<and> opaque_false 0x7fffffff = 0
   \<and> \<not> (state (main_init env_ok) = ST_INIT
          \<and> state (steps env_ok 1 (main_init env_ok)) = ST_EXIT_FAIL)"
proof -
  have s: "step env_ok (main_init env_ok) = Inr (steps env_ok 1 (main_init env_ok))"
    by (simp add: step_INIT main_init_def)
  show ?thesis
    using s decoy_edges_dead [of "0x7fffffff" env_ok "main_init env_ok"
        "steps env_ok 1 (main_init env_ok)"]
    by blast
qed

text \<open>
  C10. For every environment the loop of \<^verbatim>\<open>main\<close> returns, and the states it has
  dispatched are pairwise different and among the twelve. It returns from any state of
  the locals as well (a corrupt \<open>state\<close> falls into the default case), because every pass
  that does not return moves to a state strictly later in the order.
\<close>

theorem main_terminates:
  "(\<exists>r msf. main e = Some (r, msf) \<and> step e msf = Inl r
       \<and> distinct (visited msf) \<and> set (visited msf) \<subseteq> set twelve)
   \<and> (\<exists>r msf. main_loop e ms = Some (r, msf))
   \<and> (step e ms = Inr ms' \<longrightarrow> rank (state ms) < rank (state ms'))"
proof (intro conjI impI)
  obtain r msf where m: "main_loop e (main_init e) = Some (r, msf)" "step e msf = Inl r"
    and "reach e (main_init e) \<longrightarrow> reach e msf"
    using main_loop_total[of e "main_init e"] by blast
  then have "reach e msf" by (simp add: reach_init)
  then have "dinv msf" by (rule reach_dinv)
  then have "distinct (visited msf)" "set (visited msf) \<subseteq> set twelve"
    by (simp_all add: dinv_def sorted_rank_distinct)
  with m show "\<exists>r msf. main e = Some (r, msf) \<and> step e msf = Inl r
       \<and> distinct (visited msf) \<and> set (visited msf) \<subseteq> set twelve"
    by (auto simp: main_def)
next
  show "\<exists>r msf. main_loop e ms = Some (r, msf)" using main_loop_total[of e ms] by blast
next
  assume "step e ms = Inr ms'"
  then show "rank (state ms) < rank (state ms')" by (rule step_Inr_rank)
qed

text \<open>The same in the environment \<open>env_ok\<close>, with its first pass.\<close>

theorem main_terminates_witness:
  "step env_ok (main_init env_ok) = Inr (steps env_ok 1 (main_init env_ok))
   \<and> (\<exists>r msf. main env_ok = Some (r, msf) \<and> step env_ok msf = Inl r
       \<and> distinct (visited msf) \<and> set (visited msf) \<subseteq> set twelve)
   \<and> rank (state (main_init env_ok)) < rank (state (steps env_ok 1 (main_init env_ok)))"
proof -
  have s: "step env_ok (main_init env_ok) = Inr (steps env_ok 1 (main_init env_ok))"
    by (simp add: step_INIT main_init_def)
  show ?thesis
    using s main_terminates [of env_ok "main_init env_ok" "steps env_ok 1 (main_init env_ok)"]
    by blast
qed

text \<open>
  C1. In every run, if one of the three probes \<^verbatim>\<open>_ad_ptrace\<close>, \<^verbatim>\<open>_ad_timing\<close>,
  \<^verbatim>\<open>_ad_proc\<close> returns nonzero in the state that calls it, \<^verbatim>\<open>main\<close> returns 1 from
  \<^verbatim>\<open>ST_EXIT_FAIL\<close>, and neither \<^verbatim>\<open>_download\<close> nor \<^verbatim>\<open>_exec_payload\<close> is entered
  at any point of the run.
\<close>

theorem guard_detected_aborts:
  assumes "reach e ms"
    and "(state ms = ST_ANTI_DEBUG_1 \<and> fst (ad_ptrace e (glob ms)) \<noteq> 0)
       \<or> (state ms = ST_ANTI_DEBUG_2 \<and> fst (ad_timing e (glob ms)) \<noteq> 0)
       \<or> (state ms = ST_ANTI_DEBUG_3 \<and> fst (ad_proc e (glob ms)) \<noteq> 0)"
  shows "\<exists>msf. main e = Some (1, msf) \<and> state msf = ST_EXIT_FAIL
           \<and> Enter F_download \<notin> set (trace (glob msf))
           \<and> Enter F_exec_payload \<notin> set (trace (glob msf))"
proof -
  from assms(2) have "rank (state ms) < 9" by (auto simp: rank_def)
  note nf = no_fetch_before[OF assms(1) this]
  from assms(2) have "\<exists>ms'. step e ms = Inr ms' \<and> state ms' = ST_EXIT_FAIL
      \<and> (\<forall>g. Enter g \<in> set (trace (glob ms')) \<longrightarrow>
             g \<in> {F_ad_ptrace, F_ad_timing, F_ad_proc} \<or> Enter g \<in> set (trace (glob ms)))"
    by (auto simp: step_at trace_frames)
  then obtain ms' where st: "step e ms = Inr ms'" and f: "state ms' = ST_EXIT_FAIL"
    and t: "\<forall>g. Enter g \<in> set (trace (glob ms')) \<longrightarrow>
              g \<in> {F_ad_ptrace, F_ad_timing, F_ad_proc} \<or> Enter g \<in> set (trace (glob ms))"
    by blast
  have "main e = Some (1, ms')" using assms(1) st f by (rule abort_run)
  moreover have "Enter F_download \<notin> set (trace (glob ms'))" using t nf by auto
  moreover have "Enter F_exec_payload \<notin> set (trace (glob ms'))" using t nf by auto
  ultimately show ?thesis using f by blast
qed

text \<open>The same in the environment \<open>env_traced\<close>, at the state after the first pass.\<close>

theorem guard_detected_aborts_witness:
  "reach env_traced (steps env_traced 1 (main_init env_traced))
   \<and> ((state (steps env_traced 1 (main_init env_traced)) = ST_ANTI_DEBUG_1
        \<and> fst (ad_ptrace env_traced (glob (steps env_traced 1 (main_init env_traced)))) \<noteq> 0)
      \<or> (state (steps env_traced 1 (main_init env_traced)) = ST_ANTI_DEBUG_2
        \<and> fst (ad_timing env_traced (glob (steps env_traced 1 (main_init env_traced)))) \<noteq> 0)
      \<or> (state (steps env_traced 1 (main_init env_traced)) = ST_ANTI_DEBUG_3
        \<and> fst (ad_proc env_traced (glob (steps env_traced 1 (main_init env_traced)))) \<noteq> 0))
   \<and> (\<exists>msf. main env_traced = Some (1, msf) \<and> state msf = ST_EXIT_FAIL
          \<and> Enter F_download \<notin> set (trace (glob msf))
          \<and> Enter F_exec_payload \<notin> set (trace (glob msf)))"
proof -
  let ?ms = "steps env_traced 1 (main_init env_traced)"
  have r: "reach env_traced ?ms" by (rule reach_steps[OF reach_init])
  have h: "(state ?ms = ST_ANTI_DEBUG_1 \<and> fst (ad_ptrace env_traced (glob ?ms)) \<noteq> 0)
      \<or> (state ?ms = ST_ANTI_DEBUG_2 \<and> fst (ad_timing env_traced (glob ?ms)) \<noteq> 0)
      \<or> (state ?ms = ST_ANTI_DEBUG_3 \<and> fst (ad_proc env_traced (glob ?ms)) \<noteq> 0)"
    by (simp add: step_INIT main_init_def ad_ptrace_fst env_traced_simps)
  show ?thesis using r h guard_detected_aborts[OF r h] by blast
qed

text \<open>
  C5. In every run that reaches \<^verbatim>\<open>ST_CHECK_MARKER\<close> (so all three probes returned 0),
  if \<^verbatim>\<open>_check_marker\<close> returns nonzero then \<^verbatim>\<open>main\<close> returns 1 from
  \<^verbatim>\<open>ST_EXIT_FAIL\<close>, and neither \<^verbatim>\<open>_download\<close> nor \<^verbatim>\<open>_exec_payload\<close> is entered.
\<close>

theorem marker_present_aborts:
  assumes "reach e ms" and "state ms = ST_CHECK_MARKER"
    and "fst (check_marker e (glob ms)) \<noteq> 0"
  shows "\<exists>msf. main e = Some (1, msf) \<and> state msf = ST_EXIT_FAIL
           \<and> Enter F_download \<notin> set (trace (glob msf))
           \<and> Enter F_exec_payload \<notin> set (trace (glob msf))"
proof -
  from assms(2) have "rank (state ms) < 9" by (simp add: rank_def)
  note nf = no_fetch_before[OF assms(1) this]
  let ?ms' = "ms\<lparr>state := ST_EXIT_FAIL, glob := snd (check_marker e (glob ms)),
                  path := path ms @ [ST_CHECK_MARKER]\<rparr>"
  have st: "step e ms = Inr ?ms'" using assms(2,3) by (simp add: step_CHECK_MARKER)
  have "main e = Some (1, ?ms')" using assms(1) st by (rule abort_run) simp
  moreover have "Enter F_download \<notin> set (trace (glob ?ms'))" using nf by (simp add: trace_frames)
  moreover have "Enter F_exec_payload \<notin> set (trace (glob ?ms'))" using nf by (simp add: trace_frames)
  ultimately show ?thesis by auto
qed

text \<open>The same in the environment \<open>env_marked\<close>, at the state after six passes.\<close>

theorem marker_present_aborts_witness:
  "reach env_marked (steps env_marked 6 (main_init env_marked))
   \<and> state (steps env_marked 6 (main_init env_marked)) = ST_CHECK_MARKER
   \<and> fst (check_marker env_marked (glob (steps env_marked 6 (main_init env_marked)))) \<noteq> 0
   \<and> (\<exists>msf. main env_marked = Some (1, msf) \<and> state msf = ST_EXIT_FAIL
          \<and> Enter F_download \<notin> set (trace (glob msf))
          \<and> Enter F_exec_payload \<notin> set (trace (glob msf)))"
proof -
  let ?ms = "steps env_marked 6 (main_init env_marked)"
  have r: "reach env_marked ?ms" by (rule reach_steps[OF reach_init])
  have s: "state ?ms = ST_CHECK_MARKER" by (simp add: run_simps env_marked_simps)
  have c: "fst (check_marker env_marked (glob ?ms)) \<noteq> 0"
    using reach_dinv[OF r] by (simp add: check_marker_fst dinv_def env_marked_simps)
  show ?thesis using r s c marker_present_aborts[OF r s c] by blast
qed

text \<open>
  C3. In every run that reaches \<^verbatim>\<open>ST_DOWNLOAD\<close>: if \<^verbatim>\<open>_download\<close> returns nonzero,
  \<^verbatim>\<open>main\<close> returns 1 from \<^verbatim>\<open>ST_EXIT_FAIL\<close> and \<^verbatim>\<open>_exec_payload\<close> is never
  entered; if it returns 0, \<^verbatim>\<open>_exec_payload\<close> is entered, \<^verbatim>\<open>main\<close> returns from
  \<^verbatim>\<open>ST_EXIT_OK\<close>, and the value returned is 0 exactly when \<^verbatim>\<open>_exec_payload\<close>
  returned 0, and 1 otherwise.
\<close>

theorem download_then_exec:
  assumes "reach e ms" and "state ms = ST_DOWNLOAD"
  shows "(fst (download e (glob ms)) \<noteq> 0 \<longrightarrow>
            (\<exists>msf. main e = Some (1, msf) \<and> state msf = ST_EXIT_FAIL
               \<and> Enter F_exec_payload \<notin> set (trace (glob msf))))
       \<and> (fst (download e (glob ms)) = 0 \<longrightarrow>
            (\<exists>r msf. main e = Some (r, msf) \<and> state msf = ST_EXIT_OK
               \<and> Enter F_exec_payload \<in> set (trace (glob msf))
               \<and> (r = 0) = (fst (exec_payload e (snd (download e (glob ms)))) = 0)
               \<and> (r = 0 \<or> r = 1)))"
  using assms by (rule download_run)

text \<open>The same in the environment \<open>env_ok\<close>, at the state after eight passes.\<close>

theorem download_then_exec_witness:
  "reach env_ok (steps env_ok 8 (main_init env_ok))
   \<and> state (steps env_ok 8 (main_init env_ok)) = ST_DOWNLOAD
   \<and> fst (download env_ok (glob (steps env_ok 8 (main_init env_ok)))) = 0
   \<and> (\<exists>r msf. main env_ok = Some (r, msf) \<and> state msf = ST_EXIT_OK
          \<and> Enter F_exec_payload \<in> set (trace (glob msf))
          \<and> (r = 0) = (fst (exec_payload env_ok
                 (snd (download env_ok (glob (steps env_ok 8 (main_init env_ok)))))) = 0)
          \<and> (r = 0 \<or> r = 1))"
proof -
  let ?ms = "steps env_ok 8 (main_init env_ok)"
  have r: "reach env_ok ?ms" by (rule reach_steps[OF reach_init])
  have s: "state ?ms = ST_DOWNLOAD" by (simp add: run_simps env_ok_simps)
  have d: "fst (download env_ok (glob ?ms)) = 0" by (simp add: download_fst env_ok_simps)
  show ?thesis using r s d download_then_exec[OF r s] by blast
qed

text \<open>
  C4, as stated, fails. In the environment \<open>env_nomem\<close> the first \<^verbatim>\<open>malloc\<close> fails, so
  the first \<^verbatim>\<open>_ds\<close> of \<^verbatim>\<open>_ad_proc\<close> returns NULL in \<^verbatim>\<open>ST_ANTI_DEBUG_3\<close>; the
  run goes on and \<^verbatim>\<open>main\<close> returns 0 from \<^verbatim>\<open>ST_EXIT_OK\<close>.
\<close>

theorem decode_failure_fatal_counterexample:
  "state (steps env_nomem 3 (main_init env_nomem)) = ST_ANTI_DEBUG_3
   \<and> fst (ds env_nomem S_PROC_STATUS
            (enter F_ad_proc (glob (steps env_nomem 3 (main_init env_nomem))))) = None
   \<and> main env_nomem = Some (0, steps env_nomem 10 (main_init env_nomem))
   \<and> state (steps env_nomem 10 (main_init env_nomem)) = ST_EXIT_OK"
proof -
  let ?m3 = "steps env_nomem 3 (main_init env_nomem)"
  let ?m10 = "steps env_nomem 10 (main_init env_nomem)"
  have a: "state ?m3 = ST_ANTI_DEBUG_3" by (simp add: run_simps env_nomem_simps)
  have b: "fst (ds env_nomem S_PROC_STATUS (enter F_ad_proc (glob ?m3))) = None"
    by (simp add: run_simps env_nomem_simps ds_fst_None world0_simps)
  have c: "state ?m10 = ST_EXIT_OK" by (simp add: run_simps env_nomem_simps)
  have d: "retval ?m10 = 0" by (simp add: run_simps env_nomem_simps)
  have "main env_nomem = main_loop env_nomem ?m10" by (rule main_steps)
  also have "\<dots> = Some (0, ?m10)" using c d by (simp add: main_loop_Inl step_EXIT_OK)
  finally show ?thesis using a b c by simp
qed

text \<open>
  C4, amended. For every entry that lies inside the string table, as all thirteen entries
  of the directory do, \<^verbatim>\<open>_ds\<close> returns NULL exactly when its \<^verbatim>\<open>malloc\<close> fails, and
  it reads nothing outside the table; no run ever does. In a run, a failed decode ends
  in \<^verbatim>\<open>return 1\<close> when it happens in \<^verbatim>\<open>_check_os\<close> or \<^verbatim>\<open>_download\<close> (from
  \<^verbatim>\<open>ST_EXIT_FAIL\<close>, with \<^verbatim>\<open>_exec_payload\<close> never entered after \<^verbatim>\<open>_download\<close>) or
  in \<^verbatim>\<open>_exec_payload\<close> (from \<^verbatim>\<open>ST_EXIT_OK\<close>). Elsewhere it is absorbed: in
  \<^verbatim>\<open>_ad_proc\<close> the probe returns 0 and the dispatcher goes on to
  \<^verbatim>\<open>ST_SELF_MODIFY\<close>; in \<^verbatim>\<open>_check_marker\<close> the check returns 0, as for an absent
  marker, and the dispatcher goes on to \<^verbatim>\<open>ST_HIDE_PROC\<close>; in \<^verbatim>\<open>_hide_proc\<close> the
  write is skipped (the pass adds only the entry of \<^verbatim>\<open>_hide_proc\<close> to the log, which
  then has no write at all) and the dispatcher goes on to \<^verbatim>\<open>ST_DOWNLOAD\<close>.
\<close>

theorem decode_failure_outcomes:
  assumes "reach e ms"
  shows "(in_table x \<longrightarrow>
           (fst (ds e x w) = None) = (\<not> malloc_ok e (mallocs w))
           \<and> faulted (snd (ds e x w)) = faulted w)
    \<and> list_all in_table directory
    \<and> \<not> faulted (glob ms)
    \<and> (state ms = ST_CHECK_OS \<and> uname_r e \<noteq> None \<and> \<not> malloc_ok e (mallocs (glob ms)) \<longrightarrow>
         (\<exists>msf. main e = Some (1, msf) \<and> state msf = ST_EXIT_FAIL))
    \<and> (state ms = ST_DOWNLOAD
         \<and> (\<not> malloc_ok e (mallocs (glob ms)) \<or> \<not> malloc_ok e (mallocs (glob ms) + 1)
            \<or> \<not> malloc_ok e (mallocs (glob ms) + 2) \<or> \<not> malloc_ok e (mallocs (glob ms) + 3)
            \<or> \<not> malloc_ok e (mallocs (glob ms) + 4)) \<longrightarrow>
         (\<exists>msf. main e = Some (1, msf) \<and> state msf = ST_EXIT_FAIL
            \<and> Enter F_exec_payload \<notin> set (trace (glob msf))))
    \<and> (state ms = ST_EXEC
         \<and> (\<not> malloc_ok e (mallocs (glob ms)) \<or> \<not> malloc_ok e (mallocs (glob ms) + 1)
            \<or> \<not> malloc_ok e (mallocs (glob ms) + 2)) \<longrightarrow>
         (\<exists>msf. main e = Some (1, msf) \<and> state msf = ST_EXIT_OK))
    \<and> (state ms = ST_ANTI_DEBUG_3
         \<and> (\<not> malloc_ok e (mallocs (glob ms)) \<or> \<not> malloc_ok e (mallocs (glob ms) + 1)) \<longrightarrow>
         fst (ad_proc e (glob ms)) = 0
         \<and> (\<exists>ms'. step e ms = Inr ms' \<and> state ms' = ST_SELF_MODIFY))
    \<and> (state ms = ST_CHECK_MARKER \<and> \<not> malloc_ok e (mallocs (glob ms)) \<longrightarrow>
         fst (check_marker e (glob ms)) = 0
         \<and> (\<exists>ms'. step e ms = Inr ms' \<and> state ms' = ST_HIDE_PROC))
    \<and> (state ms = ST_HIDE_PROC \<and> \<not> malloc_ok e (mallocs (glob ms)) \<longrightarrow>
         (\<exists>ms'. step e ms = Inr ms' \<and> state ms' = ST_DOWNLOAD
            \<and> trace (glob ms') = trace (glob ms) @ [Enter F_hide_proc]
            \<and> Sys_write \<notin> set (trace (glob ms'))))"
proof (intro conjI impI)
  note inv = reach_dinv[OF assms]
  then have wf: "wf_world (glob ms)" by (simp add: dinv_def)
  {
    assume "in_table x"
    then show "(fst (ds e x w) = None) = (\<not> malloc_ok e (mallocs w))" by (simp add: ds_fst_None)
  }
  {
    assume "in_table x"
    then show "faulted (snd (ds e x w)) = faulted w"
      by (cases x) (auto simp: ds_faulted in_table_def)
  }
  show "list_all in_table directory" by (rule directory_in_table)
  show "\<not> faulted (glob ms)" using assms by (rule reach_no_fault)
  {
    assume h: "state ms = ST_CHECK_OS \<and> uname_r e \<noteq> None \<and> \<not> malloc_ok e (mallocs (glob ms))"
    let ?ms' = "ms\<lparr>state := ST_EXIT_FAIL, glob := snd (check_os e (glob ms)),
                    path := path ms @ [ST_CHECK_OS]\<rparr>"
    have st: "step e ms = Inr ?ms'" using h wf by (simp add: step_CHECK_OS check_os_fst)
    have "main e = Some (1, ?ms')" using assms st by (rule abort_run) simp
    then show "\<exists>msf. main e = Some (1, msf) \<and> state msf = ST_EXIT_FAIL" by auto
  }
  {
    assume h: "state ms = ST_DOWNLOAD
         \<and> (\<not> malloc_ok e (mallocs (glob ms)) \<or> \<not> malloc_ok e (mallocs (glob ms) + 1)
            \<or> \<not> malloc_ok e (mallocs (glob ms) + 2) \<or> \<not> malloc_ok e (mallocs (glob ms) + 3)
            \<or> \<not> malloc_ok e (mallocs (glob ms) + 4))"
    then have "fst (download e (glob ms)) \<noteq> 0"
      by (auto simp: download_fst numeral_eq_Suc)
    with h show "\<exists>msf. main e = Some (1, msf) \<and> state msf = ST_EXIT_FAIL
            \<and> Enter F_exec_payload \<notin> set (trace (glob msf))"
      using download_run[OF assms] by simp
  }
  {
    assume h: "state ms = ST_EXEC
         \<and> (\<not> malloc_ok e (mallocs (glob ms)) \<or> \<not> malloc_ok e (mallocs (glob ms) + 1)
            \<or> \<not> malloc_ok e (mallocs (glob ms) + 2))"
    then have f: "fst (exec_payload e (glob ms)) \<noteq> 0"
      by (auto simp: exec_payload_fst numeral_eq_Suc)
    have rv: "retval ms = 1" using inv h by (simp add: dinv_def)
    let ?ms' = "ms\<lparr>state := ST_EXIT_OK, retval := 1, glob := snd (exec_payload e (glob ms)),
                    path := path ms @ [ST_EXEC]\<rparr>"
    have s1: "step e ms = Inr ?ms'" using h f rv by (simp add: step_EXEC)
    have s2: "step e ?ms' = Inl 1" by (simp add: step_EXIT_OK)
    have "main e = main_loop e ms" using assms by (simp add: reach_main)
    also have "\<dots> = main_loop e ?ms'" using s1 by (rule main_loop_Inr)
    also have "\<dots> = Some (1, ?ms')" using s2 by (rule main_loop_Inl)
    finally show "\<exists>msf. main e = Some (1, msf) \<and> state msf = ST_EXIT_OK" by auto
  }
  {
    assume h: "state ms = ST_ANTI_DEBUG_3
         \<and> (\<not> malloc_ok e (mallocs (glob ms)) \<or> \<not> malloc_ok e (mallocs (glob ms) + 1))"
    then show z: "fst (ad_proc e (glob ms)) = 0" by (auto simp: ad_proc_nomem)
    with h show "\<exists>ms'. step e ms = Inr ms' \<and> state ms' = ST_SELF_MODIFY"
      by (simp add: step_ANTI_DEBUG_3)
  }
  {
    assume h: "state ms = ST_CHECK_MARKER \<and> \<not> malloc_ok e (mallocs (glob ms))"
    then show "fst (check_marker e (glob ms)) = 0" using wf by (simp add: check_marker_fst)
    from h show "\<exists>ms'. step e ms = Inr ms' \<and> state ms' = ST_HIDE_PROC"
      using wf by (simp add: step_CHECK_MARKER check_marker_fst)
  }
  {
    assume h: "state ms = ST_HIDE_PROC \<and> \<not> malloc_ok e (mallocs (glob ms))"
    then have "rank (state ms) \<le> 7" by (simp add: rank_def)
    then have nw: "Sys_write \<notin> set (trace (glob ms))" using assms by (simp add: reach_no_write)
    let ?ms' = "ms\<lparr>state := ST_DOWNLOAD, glob := hide_proc e (glob ms),
                    path := path ms @ [ST_HIDE_PROC]\<rparr>"
    have st: "step e ms = Inr ?ms'" using h by (simp add: step_HIDE_PROC)
    have tr: "trace (glob ?ms') = trace (glob ms) @ [Enter F_hide_proc]"
      using h by (simp add: hide_proc_skip)
    then have "Sys_write \<notin> set (trace (glob ?ms'))" using nw by simp
    with st tr show "\<exists>ms'. step e ms = Inr ms' \<and> state ms' = ST_DOWNLOAD
            \<and> trace (glob ms') = trace (glob ms) @ [Enter F_hide_proc]
            \<and> Sys_write \<notin> set (trace (glob ms'))"
      by (intro exI[of _ ?ms']) simp
  }
qed

text \<open>
  The same at the first entry of the directory, and in six runs in which one
  \<^verbatim>\<open>malloc\<close> fails: in \<^verbatim>\<open>_ad_proc\<close> (\<open>env_nomem\<close>), \<^verbatim>\<open>_check_os\<close>,
  \<^verbatim>\<open>_check_marker\<close>, \<^verbatim>\<open>_hide_proc\<close>, \<^verbatim>\<open>_download\<close> (\<open>env_nofetch\<close>) and
  \<^verbatim>\<open>_exec_payload\<close>.
\<close>

theorem decode_failure_outcomes_witness:
  "in_table S_LINUX
   \<and> (fst (ds env_nomem S_LINUX world0) = None) = (\<not> malloc_ok env_nomem (mallocs world0))
   \<and> list_all in_table directory
   \<and> reach env_nomem (steps env_nomem 3 (main_init env_nomem))
   \<and> state (steps env_nomem 3 (main_init env_nomem)) = ST_ANTI_DEBUG_3
   \<and> \<not> malloc_ok env_nomem (mallocs (glob (steps env_nomem 3 (main_init env_nomem))))
   \<and> \<not> faulted (glob (steps env_nomem 3 (main_init env_nomem)))
   \<and> fst (ad_proc env_nomem (glob (steps env_nomem 3 (main_init env_nomem)))) = 0
   \<and> (\<exists>ms'. step env_nomem (steps env_nomem 3 (main_init env_nomem)) = Inr ms' \<and> state ms' = ST_SELF_MODIFY)
   \<and> reach (env_fail 2) (steps (env_fail 2) 5 (main_init (env_fail 2)))
   \<and> state (steps (env_fail 2) 5 (main_init (env_fail 2))) = ST_CHECK_OS
   \<and> \<not> malloc_ok (env_fail 2) (mallocs (glob (steps (env_fail 2) 5 (main_init (env_fail 2)))))
   \<and> uname_r (env_fail 2) \<noteq> None
   \<and> \<not> faulted (glob (steps (env_fail 2) 5 (main_init (env_fail 2))))
   \<and> (\<exists>msf. main (env_fail 2) = Some (1, msf) \<and> state msf = ST_EXIT_FAIL)
   \<and> reach (env_fail 3) (steps (env_fail 3) 6 (main_init (env_fail 3)))
   \<and> state (steps (env_fail 3) 6 (main_init (env_fail 3))) = ST_CHECK_MARKER
   \<and> \<not> malloc_ok (env_fail 3) (mallocs (glob (steps (env_fail 3) 6 (main_init (env_fail 3)))))
   \<and> \<not> faulted (glob (steps (env_fail 3) 6 (main_init (env_fail 3))))
   \<and> fst (check_marker (env_fail 3) (glob (steps (env_fail 3) 6 (main_init (env_fail 3))))) = 0
   \<and> (\<exists>ms'. step (env_fail 3) (steps (env_fail 3) 6 (main_init (env_fail 3))) = Inr ms' \<and> state ms' = ST_HIDE_PROC)
   \<and> reach (env_fail 4) (steps (env_fail 4) 7 (main_init (env_fail 4)))
   \<and> state (steps (env_fail 4) 7 (main_init (env_fail 4))) = ST_HIDE_PROC
   \<and> \<not> malloc_ok (env_fail 4) (mallocs (glob (steps (env_fail 4) 7 (main_init (env_fail 4)))))
   \<and> \<not> faulted (glob (steps (env_fail 4) 7 (main_init (env_fail 4))))
   \<and> (\<exists>ms'. step (env_fail 4) (steps (env_fail 4) 7 (main_init (env_fail 4))) = Inr ms' \<and> state ms' = ST_DOWNLOAD
        \<and> trace (glob ms') = trace (glob (steps (env_fail 4) 7 (main_init (env_fail 4)))) @ [Enter F_hide_proc]
        \<and> Sys_write \<notin> set (trace (glob ms')))
   \<and> reach env_nofetch (steps env_nofetch 8 (main_init env_nofetch))
   \<and> state (steps env_nofetch 8 (main_init env_nofetch)) = ST_DOWNLOAD
   \<and> \<not> malloc_ok env_nofetch (mallocs (glob (steps env_nofetch 8 (main_init env_nofetch))))
   \<and> \<not> faulted (glob (steps env_nofetch 8 (main_init env_nofetch)))
   \<and> (\<exists>msf. main env_nofetch = Some (1, msf) \<and> state msf = ST_EXIT_FAIL
        \<and> Enter F_exec_payload \<notin> set (trace (glob msf)))
   \<and> reach (env_fail 10) (steps (env_fail 10) 9 (main_init (env_fail 10)))
   \<and> state (steps (env_fail 10) 9 (main_init (env_fail 10))) = ST_EXEC
   \<and> \<not> malloc_ok (env_fail 10) (mallocs (glob (steps (env_fail 10) 9 (main_init (env_fail 10)))))
   \<and> \<not> faulted (glob (steps (env_fail 10) 9 (main_init (env_fail 10))))
   \<and> (\<exists>msf. main (env_fail 10) = Some (1, msf) \<and> state msf = ST_EXIT_OK)"
proof -
  have t: "in_table S_LINUX" by (simp add: in_table_def length_st)
  have r0: "reach env_nomem (steps env_nomem 3 (main_init env_nomem))" by (rule reach_steps[OF reach_init])
  have s0: "state (steps env_nomem 3 (main_init env_nomem)) = ST_ANTI_DEBUG_3"
    by (simp add: run_simps env_nomem_simps world0_simps)
  have a0: "\<not> malloc_ok env_nomem (mallocs (glob (steps env_nomem 3 (main_init env_nomem))))"
    by (simp add: run_simps env_nomem_simps world0_simps)
  note d0 = decode_failure_outcomes [OF r0, where x = S_LINUX and w = world0]
  have f0: "\<not> faulted (glob (steps env_nomem 3 (main_init env_nomem)))" using d0 by blast
  have c0a: "fst (ad_proc env_nomem (glob (steps env_nomem 3 (main_init env_nomem)))) = 0"
    using d0 s0 a0 by simp
  have c0b: "\<exists>ms'. step env_nomem (steps env_nomem 3 (main_init env_nomem)) = Inr ms' \<and> state ms' = ST_SELF_MODIFY"
    using d0 s0 a0 by simp
  have g: "(fst (ds env_nomem S_LINUX world0) = None) = (\<not> malloc_ok env_nomem (mallocs world0))"
    using d0 t by blast
  have l: "list_all in_table directory" using d0 by blast
  have r1: "reach (env_fail 2) (steps (env_fail 2) 5 (main_init (env_fail 2)))" by (rule reach_steps[OF reach_init])
  have s1: "state (steps (env_fail 2) 5 (main_init (env_fail 2))) = ST_CHECK_OS"
    by (simp add: run_simps env_fail_simps world0_simps)
  have a1: "\<not> malloc_ok (env_fail 2) (mallocs (glob (steps (env_fail 2) 5 (main_init (env_fail 2)))))"
    by (simp add: run_simps env_fail_simps world0_simps)
  have u1: "uname_r (env_fail 2) \<noteq> None" by (simp add: env_fail_simps)
  note d1 = decode_failure_outcomes [OF r1, where x = S_LINUX and w = world0]
  have f1: "\<not> faulted (glob (steps (env_fail 2) 5 (main_init (env_fail 2))))" using d1 by blast
  have c1a: "\<exists>msf. main (env_fail 2) = Some (1, msf) \<and> state msf = ST_EXIT_FAIL"
    using d1 s1 a1 u1 by simp
  have r2: "reach (env_fail 3) (steps (env_fail 3) 6 (main_init (env_fail 3)))" by (rule reach_steps[OF reach_init])
  have s2: "state (steps (env_fail 3) 6 (main_init (env_fail 3))) = ST_CHECK_MARKER"
    by (simp add: run_simps env_fail_simps world0_simps)
  have a2: "\<not> malloc_ok (env_fail 3) (mallocs (glob (steps (env_fail 3) 6 (main_init (env_fail 3)))))"
    by (simp add: run_simps env_fail_simps world0_simps)
  note d2 = decode_failure_outcomes [OF r2, where x = S_LINUX and w = world0]
  have f2: "\<not> faulted (glob (steps (env_fail 3) 6 (main_init (env_fail 3))))" using d2 by blast
  have c2a: "fst (check_marker (env_fail 3) (glob (steps (env_fail 3) 6 (main_init (env_fail 3))))) = 0"
    using d2 s2 a2 by simp
  have c2b: "\<exists>ms'. step (env_fail 3) (steps (env_fail 3) 6 (main_init (env_fail 3))) = Inr ms' \<and> state ms' = ST_HIDE_PROC"
    using d2 s2 a2 by simp
  have r3: "reach (env_fail 4) (steps (env_fail 4) 7 (main_init (env_fail 4)))" by (rule reach_steps[OF reach_init])
  have s3: "state (steps (env_fail 4) 7 (main_init (env_fail 4))) = ST_HIDE_PROC"
    by (simp add: run_simps env_fail_simps world0_simps)
  have a3: "\<not> malloc_ok (env_fail 4) (mallocs (glob (steps (env_fail 4) 7 (main_init (env_fail 4)))))"
    by (simp add: run_simps env_fail_simps world0_simps)
  note d3 = decode_failure_outcomes [OF r3, where x = S_LINUX and w = world0]
  have f3: "\<not> faulted (glob (steps (env_fail 4) 7 (main_init (env_fail 4))))" using d3 by blast
  have c3a: "\<exists>ms'. step (env_fail 4) (steps (env_fail 4) 7 (main_init (env_fail 4))) = Inr ms' \<and> state ms' = ST_DOWNLOAD
        \<and> trace (glob ms') = trace (glob (steps (env_fail 4) 7 (main_init (env_fail 4)))) @ [Enter F_hide_proc]
        \<and> Sys_write \<notin> set (trace (glob ms'))"
    using d3 s3 a3 by simp
  have r4: "reach env_nofetch (steps env_nofetch 8 (main_init env_nofetch))" by (rule reach_steps[OF reach_init])
  have s4: "state (steps env_nofetch 8 (main_init env_nofetch)) = ST_DOWNLOAD"
    by (simp add: run_simps env_nofetch_simps world0_simps)
  have a4: "\<not> malloc_ok env_nofetch (mallocs (glob (steps env_nofetch 8 (main_init env_nofetch))))"
    by (simp add: run_simps env_nofetch_simps world0_simps)
  note d4 = decode_failure_outcomes [OF r4, where x = S_LINUX and w = world0]
  have f4: "\<not> faulted (glob (steps env_nofetch 8 (main_init env_nofetch)))" using d4 by blast
  have c4a: "\<exists>msf. main env_nofetch = Some (1, msf) \<and> state msf = ST_EXIT_FAIL
        \<and> Enter F_exec_payload \<notin> set (trace (glob msf))"
    using d4 s4 a4 by simp
  have r5: "reach (env_fail 10) (steps (env_fail 10) 9 (main_init (env_fail 10)))" by (rule reach_steps[OF reach_init])
  have s5: "state (steps (env_fail 10) 9 (main_init (env_fail 10))) = ST_EXEC"
    by (simp add: run_simps env_fail_simps world0_simps)
  have a5: "\<not> malloc_ok (env_fail 10) (mallocs (glob (steps (env_fail 10) 9 (main_init (env_fail 10)))))"
    by (simp add: run_simps env_fail_simps world0_simps)
  note d5 = decode_failure_outcomes [OF r5, where x = S_LINUX and w = world0]
  have f5: "\<not> faulted (glob (steps (env_fail 10) 9 (main_init (env_fail 10))))" using d5 by blast
  have c5a: "\<exists>msf. main (env_fail 10) = Some (1, msf) \<and> state msf = ST_EXIT_OK"
    using d5 s5 a5 by simp
  show ?thesis
    by (intro conjI) (fact t r0 s0 a0 f0 c0a c0b g l r1 s1 a1 u1 f1 c1a r2 s2 a2 f2 c2a c2b r3 s3 a3 f3 c3a r4 s4 a4 f4 c4a r5 s5 a5 f5 c5a)+
qed

end
